theory Spec2Isabelle
  imports Complex_Main "HOL-Library.Char_ord" "HOL-Library.List_Lexorder"
begin

section \<open>Up Bank to YNAB sync worker: data model\<close>

text \<open>
  The worker mirrors transactions of the source ledger (Up Bank) into the target ledger
  (YNAB).  The functions embedded here are those of the worker's fullest version
  (\<^verbatim>\<open>importId\<close> expression, the two transaction mappers, \<^verbatim>\<open>fetchUpTransactionsByAccount\<close>,
  \<^verbatim>\<open>syncToYNAB\<close>, \<^verbatim>\<open>deleteFromYNAB\<close>, \<^verbatim>\<open>performResyncAll\<close>).

  JavaScript strings are modelled as \<^typ>\<open>string\<close>; identifiers and dates of both ledgers
  are ASCII, where \<^verbatim>\<open>substring\<close> and \<^verbatim>\<open><\<close> on UTF-16 code units agree with
  \<^const>\<open>take\<close> and the lexicographic order on characters.  A value that may be
  \<^verbatim>\<open>null\<close> or \<^verbatim>\<open>undefined\<close> is an \<^typ>\<open>'a option\<close>.
\<close>

subsection \<open>JavaScript numbers\<close>

text \<open>
  A JavaScript number is an IEEE 754 double: \<^verbatim>\<open>NaN\<close>, an infinity, or a finite value, kept
  here as the rational it denotes.  The result of an arithmetic operation, and of reading
  a decimal literal, is the exact result rounded to the nearest double, a tie going to
  the double with an even mantissa, and to an infinity when the rounded magnitude reaches
  \<open>2 ^ 1024\<close>.  The sign of a zero is not kept: nothing the worker does with an amount
  tells the two zeros apart.
\<close>

datatype jsnum = NaN | PosInf | NegInf | Num rat

text \<open>The number of binary digits of a natural number.\<close>

fun bitLength :: "nat \<Rightarrow> nat" where
  "bitLength n = (if n = 0 then 0 else Suc (bitLength (n div 2)))"

declare bitLength.simps [simp del]

definition pow2 :: "int \<Rightarrow> rat" where
  "pow2 k = (if 0 \<le> k then 2 ^ nat k else 1 / 2 ^ nat (- k))"

text \<open>The binary exponent of a positive rational \<open>a\<close>: the \<open>e\<close> with \<open>2 ^ e \<le> a < 2 ^ (e + 1)\<close>.\<close>

definition exponentOf :: "rat \<Rightarrow> int" where
  "exponentOf a =
     (if 1 \<le> a then int (bitLength (nat \<lfloor>a\<rfloor>)) - 1
      else - int (bitLength (nat (\<lceil>1 / a\<rceil> - 1))))"

definition roundHalfEven :: "rat \<Rightarrow> int" where
  "roundHalfEven x =
     (let f = \<lfloor>x\<rfloor>; r = x - of_int f
      in if r < 1 / 2 then f else if 1 / 2 < r then f + 1 else if even f then f else f + 1)"

text \<open>
  The double nearest to a rational: a mantissa of 53 binary digits at the exponent of the
  value, or at the least exponent \<open>- 1022\<close> for a subnormal value.
\<close>

definition toDouble :: "rat \<Rightarrow> jsnum" where
  "toDouble q =
     (if q = 0 then Num 0
      else
        (let a = \<bar>q\<bar>;
             e = max (exponentOf a) (- 1022);
             u = pow2 (e - 52);
             r = of_int (roundHalfEven (a / u)) * u
         in if pow2 1024 \<le> r then (if 0 < q then PosInf else NegInf)
            else Num (if 0 < q then r else - r)))"

text \<open>
  The characters that \<^verbatim>\<open>parseFloat\<close> skips at the start, among the code units below 256:
  tab, line feed, vertical tab, form feed, carriage return, space and no-break space.
\<close>

definition isWhiteSpace :: "char \<Rightarrow> bool" where
  "isWhiteSpace c \<longleftrightarrow>
     c \<in> set [CHR '' '', CHR 0x09, CHR 0x0A, CHR 0x0B, CHR 0x0C, CHR 0x0D, CHR 0xA0]"

definition digitVal :: "char \<Rightarrow> nat option" where
  "digitVal c = map_of (zip ''0123456789'' [0, 1, 2, 3, 4, 5, 6, 7, 8, 9]) c"

definition isDigit :: "char \<Rightarrow> bool" where
  "isDigit c \<longleftrightarrow> digitVal c \<noteq> None"

fun digitsVal :: "nat \<Rightarrow> string \<Rightarrow> nat" where
  "digitsVal acc [] = acc"
| "digitsVal acc (c # cs) = digitsVal (10 * acc + (case digitVal c of Some d \<Rightarrow> d | None \<Rightarrow> 0)) cs"

text \<open>The sign of a \<^verbatim>\<open>StrDecimalLiteral\<close> or of an exponent: is it negative, and the rest.\<close>

fun signOf :: "string \<Rightarrow> bool \<times> string" where
  "signOf [] = (False, [])"
| "signOf (c # cs) =
     (if c = CHR ''-'' then (True, cs) else if c = CHR ''+'' then (False, cs) else (False, c # cs))"

text \<open>
  The \<^verbatim>\<open>ExponentPart\<close> that starts the string, as a scaling of the mantissa; a letter
  \<^verbatim>\<open>e\<close> with no digit after it is not part of the literal.
\<close>

definition scaleByExponent :: "string \<Rightarrow> rat \<Rightarrow> rat" where
  "scaleByExponent s m =
     (case s of
        [] \<Rightarrow> m
      | c # cs \<Rightarrow>
          if c = CHR ''e'' \<or> c = CHR ''E'' then
            (let (neg, r) = signOf cs; ds = takeWhile isDigit r
             in if ds = [] then m
                else if neg then m / 10 ^ digitsVal 0 ds else m * 10 ^ digitsVal 0 ds)
          else m)"

text \<open>
  \<^verbatim>\<open>parseFloat\<close>: leading white space is skipped, the longest prefix that is a
  \<^verbatim>\<open>StrDecimalLiteral\<close> is read, and the result is \<^verbatim>\<open>NaN\<close> when there is none; otherwise
  it is the double nearest to the value the literal denotes (the rounding of V8, the
  engine that runs the worker, whatever the number of digits of the literal).
\<close>

definition parseFloat :: "string \<Rightarrow> jsnum" where
  "parseFloat s =
     (let (neg, u) = signOf (dropWhile isWhiteSpace s)
      in if take 8 u = ''Infinity'' then (if neg then NegInf else PosInf)
         else
           (let ip = takeWhile isDigit u;
                r1 = dropWhile isDigit u;
                dot = (r1 \<noteq> [] \<and> hd r1 = CHR ''.'');
                fp = (if dot then takeWhile isDigit (tl r1) else []);
                r2 = (if dot then dropWhile isDigit (tl r1) else r1)
            in if ip = [] \<and> fp = [] then NaN
               else
                 (let m = of_nat (digitsVal 0 (ip @ fp)) / 10 ^ length fp
                  in toDouble (scaleByExponent r2 (if neg then - m else m)))))"

text \<open>\<^verbatim>\<open>x * 1000\<close>\<close>

fun times1000 :: "jsnum \<Rightarrow> jsnum" where
  "times1000 (Num q) = toDouble (q * 1000)"
| "times1000 x = x"

text \<open>
  \<^verbatim>\<open>Math.round\<close>: the nearest integer, a half going towards plus infinity.  The result is
  a double: a double of magnitude \<open>2 ^ 52\<close> or more is an integer already.
\<close>

fun mathRound :: "jsnum \<Rightarrow> jsnum" where
  "mathRound (Num q) = Num (of_int (round q))"
| "mathRound x = x"

text \<open>\<^verbatim>\<open>Math.round(x * 1000)\<close>\<close>

definition roundTimes1000 :: "jsnum \<Rightarrow> jsnum" where
  "roundTimes1000 x = mathRound (times1000 x)"

text \<open>\<^verbatim>\<open>x / 1000\<close>\<close>

fun div1000 :: "jsnum \<Rightarrow> jsnum" where
  "div1000 (Num q) = toDouble (q / 1000)"
| "div1000 x = x"

subsection \<open>Source transactions\<close>

text \<open>
  The fields of \<^verbatim>\<open>MoneyObject\<close> and of \<^verbatim>\<open>TransactionResource\<close> that the worker reads.
  The worker reads them through \<^verbatim>\<open>?.\<close> and \<^verbatim>\<open>||\<close>, so \<^verbatim>\<open>attributes\<close>, \<^verbatim>\<open>amount\<close> and
  the strings may be absent; \<^verbatim>\<open>status\<close> is the string the API sent, whatever it is.
  The field \<^verbatim>\<open>value\<close> is named \<open>mvalue\<close> and \<^verbatim>\<open>id\<close> is named \<open>txid\<close>.
\<close>

record MoneyObject =
  mvalue :: "string option"

record TransactionAttributes =
  status :: "string option"
  description :: "string option"
  message :: "string option"
  amount :: "MoneyObject option"
  settledAt :: "string option"
  createdAt :: "string option"

record TransactionResource =
  txid :: string
  attributes :: "TransactionAttributes option"

text \<open>\<^verbatim>\<open>x || d\<close> on a string that may be absent: the empty string is falsy too.\<close>

fun orElse :: "string option \<Rightarrow> string \<Rightarrow> string" where
  "orElse None d = d"
| "orElse (Some s) d = (if s = [] then d else s)"

text \<open>\<^verbatim>\<open>x || undefined\<close>\<close>

fun orUndefined :: "string option \<Rightarrow> string option" where
  "orUndefined None = None"
| "orUndefined (Some s) = (if s = [] then None else Some s)"

text \<open>\<^verbatim>\<open>upTx.attributes?.f\<close> for a field \<open>f\<close> that may itself be absent.\<close>

definition attr :: "(TransactionAttributes \<Rightarrow> 'a option) \<Rightarrow> TransactionResource \<Rightarrow> 'a option" where
  "attr f upTx = (case attributes upTx of None \<Rightarrow> None | Some a \<Rightarrow> f a)"

text \<open>\<^verbatim>\<open>upTx.attributes?.amount?.value\<close>\<close>

definition amountValue :: "TransactionResource \<Rightarrow> string option" where
  "amountValue upTx = (case attr amount upTx of None \<Rightarrow> None | Some m \<Rightarrow> mvalue m)"

subsection \<open>Target transactions\<close>

text \<open>
  Modelled from the spec: the type \<^verbatim>\<open>YNAB.TransactionClearedStatus\<close> of the target
  ledger's client library, which the repository imports; the spec's \<^verbatim>\<open>clearedState\<close> has
  the two values \<^verbatim>\<open>Uncleared\<close> and \<^verbatim>\<open>Cleared\<close>.
\<close>

datatype clearedStatus = Uncleared | Cleared

text \<open>
  The object literal the mappers build for a create (fields prefixed \<open>s_\<close>); the
  restoration mapper builds it with no \<^verbatim>\<open>import_id\<close> property.
\<close>

record SaveTransaction =
  s_account_id :: string
  s_date :: string
  s_amount :: jsnum
  s_payee_name :: string
  s_memo :: "string option"
  s_cleared :: clearedStatus
  s_approved :: bool
  s_import_id :: "string option"

text \<open>A transaction as the target ledger holds and lists it (fields prefixed \<open>t_\<close>).\<close>

record TransactionDetail =
  t_id :: string
  t_account_id :: string
  t_date :: string
  t_amount :: jsnum
  t_payee_name :: "string option"
  t_memo :: "string option"
  t_cleared :: clearedStatus
  t_approved :: bool
  t_import_id :: "string option"
  t_deleted :: bool

subsection \<open>The idempotency key and the two mappers\<close>

text \<open>\<^verbatim>\<open>`UPBANK:${id}`.substring(0, 36)\<close>, as written in both mappers' callers and in
  \<^verbatim>\<open>deleteFromYNAB\<close>.\<close>

definition importId :: "string \<Rightarrow> string" where
  "importId upTxId = take 36 (''UPBANK:'' @ upTxId)"

text \<open>The cleared status of a create in \<^verbatim>\<open>syncToYNAB\<close>.\<close>

definition clearedStatusOf :: "string option \<Rightarrow> clearedStatus" where
  "clearedStatusOf upStatus =
     (if upStatus = Some ''HELD'' then Uncleared
      else if upStatus = Some ''SETTLED'' then Cleared
      else Uncleared)"

text \<open>What the worker writes to the console and a claim speaks of: warnings and errors.\<close>

datatype logEntry = Warn string | Err string

text \<open>\<^verbatim>\<open>console.warn\<close> of the mapper in \<^verbatim>\<open>syncToYNAB\<close>, for one transaction.\<close>

definition statusWarning :: "TransactionResource \<Rightarrow> logEntry list" where
  "statusWarning upTx =
     (let upStatus = attr status upTx
      in if upStatus \<noteq> Some ''HELD'' \<and> upStatus \<noteq> Some ''SETTLED''
         then [Warn (''Unexpected Up Bank transaction status for transaction '' @ txid upTx)]
         else [])"

text \<open>
  The callback of \<^verbatim>\<open>upTransactions.map\<close> in \<^verbatim>\<open>syncToYNAB\<close>; \<open>now\<close> is
  \<^verbatim>\<open>new Date().toISOString()\<close>.  Nothing in it can throw: every read of the source
  transaction goes through \<^verbatim>\<open>?.\<close>, except \<^verbatim>\<open>upTx.id\<close>, which is a string.
\<close>

definition ynabTransaction :: "string \<Rightarrow> string \<Rightarrow> TransactionResource \<Rightarrow> SaveTransaction" where
  "ynabTransaction accountId now upTx =
     (let amountInMilliunits = roundTimes1000 (parseFloat (orElse (amountValue upTx) ''0''));
          date = orElse (attr settledAt upTx) (orElse (attr createdAt upTx) now)
      in \<lparr> s_account_id = accountId,
           s_date = take 10 date,
           s_amount = amountInMilliunits,
           s_payee_name = orElse (attr description upTx) ''Unknown'',
           s_memo = orUndefined (attr message upTx),
           s_cleared = clearedStatusOf (attr status upTx),
           s_approved = False,
           s_import_id = Some (importId (txid upTx)) \<rparr>)"

text \<open>The callback of \<^verbatim>\<open>upTxs.map\<close> in the restoration step of \<^verbatim>\<open>performResyncAll\<close>.\<close>

definition restoredTx :: "string \<Rightarrow> string \<Rightarrow> TransactionResource \<Rightarrow> SaveTransaction" where
  "restoredTx ynabAccountId now upTx =
     \<lparr> s_account_id = ynabAccountId,
       s_date = take 10 (orElse (attr settledAt upTx) (orElse (attr createdAt upTx) now)),
       s_amount = roundTimes1000 (parseFloat (orElse (amountValue upTx) ''0'')),
       s_payee_name = orElse (attr description upTx) ''Unknown'',
       s_memo = orUndefined (attr message upTx),
       s_cleared = (if attr status upTx = Some ''HELD'' then Uncleared else Cleared),
       s_approved = False,
       s_import_id = None \<rparr>"

section \<open>The two ledgers\<close>

text \<open>
  A run of the worker talks to two web services.  \<open>setting\<close> holds what a run cannot
  change: the source ledger's listings, the failures of the network and of the services,
  and the clock.  \<open>world\<close> holds what a run changes: the target ledger's transactions, the
  requests sent so far (oldest first) and the console.
\<close>

datatype error = UpBankApiError | YnabApiError

datatype call =
    GetTransactionsByAccount string
  | GetTransactions
  | CreateTransactions "SaveTransaction list"
  | UpdateTransactions "(string \<times> clearedStatus) list"
  | DeleteTransaction string
  | FetchUp string string nat

text \<open>
  Modelled from the spec: the contracts of the two remote ledgers (section 4.4), which
  are network services and not code of the repository.
  \<^item> \<open>up a since\<close> is the finite chain of pages that the source ledger serves for account
    \<open>a\<close> and \<^verbatim>\<open>filter[since]\<close> date \<open>since\<close>, each page linked to the next
    ("finite, terminates when no further-page link is returned").
  \<^item> \<open>faults h c\<close> says whether request \<open>c\<close>, sent after the requests \<open>h\<close>, fails (a
    non-success response or a rejected call).  A failed request changes nothing in the
    ledger.
  \<^item> \<open>listsDeleted\<close> says whether the listing of one account includes soft-deleted
    entries; the worker filters them itself where it matters to it.
  \<^item> \<open>clock\<close> is \<^verbatim>\<open>new Date().toISOString()\<close>.
\<close>

record setting =
  up :: "string \<Rightarrow> string \<Rightarrow> TransactionResource list list"
  faults :: "call list \<Rightarrow> call \<Rightarrow> bool"
  listsDeleted :: bool
  clock :: string

record world =
  ynab :: "TransactionDetail list"
  calls :: "call list"
  console :: "logEntry list"

text \<open>Sending a request: it is recorded, and it fails or not.\<close>

definition request :: "setting \<Rightarrow> call \<Rightarrow> world \<Rightarrow> bool \<times> world" where
  "request sv c w = (faults sv (calls w) c, w\<lparr>calls := calls w @ [c]\<rparr>)"

definition logError :: "string \<Rightarrow> world \<Rightarrow> world" where
  "logError m w = w\<lparr>console := console w @ [Err m]\<rparr>"

subsection \<open>Target ledger\<close>

text \<open>
  Modelled from the spec: \<^verbatim>\<open>getTransactionsByAccount(accountId) -> list\<close>.
\<close>

definition getTransactionsByAccount ::
  "setting \<Rightarrow> string \<Rightarrow> world \<Rightarrow> (error + TransactionDetail list) \<times> world" where
  "getTransactionsByAccount sv accountId w =
     (let (failed, w') = request sv (GetTransactionsByAccount accountId) w
      in if failed then (Inl YnabApiError, w')
         else (Inr (filter (\<lambda>t. t_account_id t = accountId \<and> (listsDeleted sv \<or> \<not> t_deleted t))
                      (ynab w)), w'))"

text \<open>
  Modelled from the spec: \<^verbatim>\<open>listAllTransactionsIncludingDeleted(budgetId) -> full history\<close>.
\<close>

definition getTransactions :: "setting \<Rightarrow> world \<Rightarrow> (error + TransactionDetail list) \<times> world" where
  "getTransactions sv w =
     (let (failed, w') = request sv GetTransactions w
      in if failed then (Inl YnabApiError, w') else (Inr (ynab w), w'))"

text \<open>
  Modelled from the spec: \<^verbatim>\<open>createTransactionsBatch(entries[]) -> {createdCount,
  duplicateImportIds[]}\<close>.  "The target ledger accepts the batch, silently skips entries
  whose importId already exists, and reports which importIds were skipped as duplicates";
  a soft-deleted entry still holds its key ("reusing a previously-soft-deleted key is
  rejected by the target ledger").  The identifier of a new entry is assigned by the
  ledger and is longer than every identifier in use.
\<close>

definition newId :: "TransactionDetail list \<Rightarrow> string" where
  "newId l = replicate (Suc (fold max (map (\<lambda>t. length (t_id t)) l) 0)) (CHR ''#'')"

definition newTransaction :: "TransactionDetail list \<Rightarrow> SaveTransaction \<Rightarrow> TransactionDetail" where
  "newTransaction l s =
     \<lparr> t_id = newId l, t_account_id = s_account_id s, t_date = s_date s, t_amount = s_amount s,
       t_payee_name = Some (s_payee_name s), t_memo = s_memo s, t_cleared = s_cleared s,
       t_approved = s_approved s, t_import_id = s_import_id s, t_deleted = False \<rparr>"

definition keyInUse :: "TransactionDetail list \<Rightarrow> string option \<Rightarrow> bool" where
  "keyInUse l k \<longleftrightarrow> k \<noteq> None \<and> k \<in> set (map t_import_id l)"

record CreateResult =
  ledgerAfter :: "TransactionDetail list"
  createdTransactions :: "TransactionDetail list"
  duplicate_import_ids :: "string list"

fun acceptBatch :: "SaveTransaction list \<Rightarrow> CreateResult \<Rightarrow> CreateResult" where
  "acceptBatch [] r = r"
| "acceptBatch (s # ss) r =
     (if keyInUse (ledgerAfter r) (s_import_id s)
      then acceptBatch ss (r\<lparr>duplicate_import_ids := duplicate_import_ids r @ [orElse (s_import_id s) []]\<rparr>)
      else acceptBatch ss
             (r\<lparr>ledgerAfter := ledgerAfter r @ [newTransaction (ledgerAfter r) s],
                createdTransactions := createdTransactions r @ [newTransaction (ledgerAfter r) s]\<rparr>))"

definition createTransactions ::
  "setting \<Rightarrow> SaveTransaction list \<Rightarrow> world \<Rightarrow> (error + CreateResult) \<times> world" where
  "createTransactions sv batch w =
     (let (failed, w') = request sv (CreateTransactions batch) w
      in if failed then (Inl YnabApiError, w')
         else (let r = acceptBatch batch
                         \<lparr>ledgerAfter = ynab w, createdTransactions = [], duplicate_import_ids = []\<rparr>
               in (Inr r, w'\<lparr>ynab := ledgerAfter r\<rparr>)))"

text \<open>
  Modelled from the spec: \<^verbatim>\<open>updateTransactionsBatch(entries with id+clearedState) ->
  updatedCount\<close>.
\<close>

definition setCleared :: "string \<times> clearedStatus \<Rightarrow> TransactionDetail list \<Rightarrow> TransactionDetail list" where
  "setCleared e l = map (\<lambda>t. if t_id t = fst e then t\<lparr>t_cleared := snd e\<rparr> else t) l"

definition updateTransactions ::
  "setting \<Rightarrow> (string \<times> clearedStatus) list \<Rightarrow> world \<Rightarrow> (error + nat) \<times> world" where
  "updateTransactions sv entries w =
     (let (failed, w') = request sv (UpdateTransactions entries) w
      in if failed then (Inl YnabApiError, w')
         else (Inr (length (filter (\<lambda>t. t_id t \<in> fst ` set entries) (ynab w))),
               w'\<lparr>ynab := fold setCleared entries (ynab w)\<rparr>))"

text \<open>
  Modelled from the spec: \<^verbatim>\<open>deleteTransaction(id) -> void\<close>, a soft delete.
\<close>

definition deleteTransaction :: "setting \<Rightarrow> string \<Rightarrow> world \<Rightarrow> (error + unit) \<times> world" where
  "deleteTransaction sv i w =
     (let (failed, w') = request sv (DeleteTransaction i) w
      in if failed then (Inl YnabApiError, w')
         else (Inr (), w'\<lparr>ynab := map (\<lambda>t. if t_id t = i then t\<lparr>t_deleted := True\<rparr> else t) (ynab w)\<rparr>))"

subsection \<open>Source ledger\<close>

text \<open>
  The \<^verbatim>\<open>while (nextUrl)\<close> loop of \<^verbatim>\<open>fetchUpTransactionsByAccount\<close>: one request per page,
  a response that is not ok throws, the pages are accumulated.  The first request is
  always sent.
\<close>

fun fetchPages ::
  "setting \<Rightarrow> string \<Rightarrow> string \<Rightarrow> nat \<Rightarrow> TransactionResource list list \<Rightarrow> TransactionResource list
     \<Rightarrow> world \<Rightarrow> (error + TransactionResource list) \<times> world" where
  "fetchPages sv accountId sinceDate n [] transactions w = (Inr transactions, w)"
| "fetchPages sv accountId sinceDate n (page # pages) transactions w =
     (let (failed, w') = request sv (FetchUp accountId sinceDate n) w
      in if failed then (Inl UpBankApiError, logError ''Failed to fetch Up Bank transactions'' w')
         else fetchPages sv accountId sinceDate (Suc n) pages (transactions @ page) w')"

definition fetchUpTransactionsByAccount ::
  "setting \<Rightarrow> string \<Rightarrow> string \<Rightarrow> world \<Rightarrow> (error + TransactionResource list) \<times> world" where
  "fetchUpTransactionsByAccount sv accountId sinceDate w =
     fetchPages sv accountId sinceDate 0
       (case up sv accountId sinceDate of [] \<Rightarrow> [[]] | p # ps \<Rightarrow> p # ps) [] w"

section \<open>Incremental sync: \<^verbatim>\<open>syncToYNAB\<close>\<close>

record AccountSyncResult =
  imported :: int
  duplicates :: int
  total :: int

text \<open>
  \<^verbatim>\<open>new Map(ynabTransactions.filter(...).map(tx => [tx.import_id, tx.cleared]))\<close>: a
  later pair with the same key replaces an earlier one.
\<close>

definition desiredClearedStatus ::
  "string list \<Rightarrow> SaveTransaction list \<Rightarrow> string \<Rightarrow> clearedStatus option" where
  "desiredClearedStatus duplicateImportIds ynabTransactions =
     map_of (rev (map (\<lambda>tx. (orElse (s_import_id tx) [], s_cleared tx))
                   (filter (\<lambda>tx. orElse (s_import_id tx) [] \<in> set duplicateImportIds) ynabTransactions)))"

definition transactionsToUpdate ::
  "(string \<Rightarrow> clearedStatus option) \<Rightarrow> TransactionDetail list \<Rightarrow> (string \<times> clearedStatus) list" where
  "transactionsToUpdate desired existingTransactions =
     List.map_filter
       (\<lambda>tx. case desired (orElse (t_import_id tx) []) of
               None \<Rightarrow> None
             | Some desiredStatus \<Rightarrow>
                 if t_cleared tx \<noteq> desiredStatus then Some (t_id tx, desiredStatus) else None)
       existingTransactions"

text \<open>The inner \<^verbatim>\<open>try\<close> block of \<^verbatim>\<open>syncToYNAB\<close>; its \<^verbatim>\<open>catch\<close> logs and does not throw.\<close>

definition updateDuplicates ::
  "setting \<Rightarrow> string \<Rightarrow> string list \<Rightarrow> SaveTransaction list \<Rightarrow> world \<Rightarrow> world" where
  "updateDuplicates sv accountId duplicateImportIds ynabTransactions w =
     (case getTransactionsByAccount sv accountId w of
        (Inl e, w1) \<Rightarrow> logError ''Error updating duplicate transactions'' w1
      | (Inr existingTransactions, w1) \<Rightarrow>
          (let toUpdate = transactionsToUpdate
                            (desiredClearedStatus duplicateImportIds ynabTransactions)
                            existingTransactions
           in if length toUpdate > 0
              then (case updateTransactions sv toUpdate w1 of
                      (Inl e, w2) \<Rightarrow> logError ''Error updating duplicate transactions'' w2
                    | (Inr updatedCount, w2) \<Rightarrow> w2)
              else w1))"

definition syncToYNAB ::
  "setting \<Rightarrow> string \<Rightarrow> TransactionResource list \<Rightarrow> world \<Rightarrow> (error + AccountSyncResult) \<times> world" where
  "syncToYNAB sv accountId upTransactions w =
     (let ynabTransactions = map (ynabTransaction accountId (clock sv)) upTransactions;
          w0 = w\<lparr>console := console w @ concat (map statusWarning upTransactions)\<rparr>
      in if length ynabTransactions = 0
         then (Inr \<lparr>imported = 0, duplicates = 0, total = 0\<rparr>, w0)
         else
           (case createTransactions sv ynabTransactions w0 of
              (Inl e, w1) \<Rightarrow> (Inl e, logError ''YNAB API error'' w1)
            | (Inr result, w1) \<Rightarrow>
                (let duplicateCount = int (length (duplicate_import_ids result));
                     importedCount = int (length ynabTransactions) - duplicateCount;
                     w2 = (if duplicateCount > 0
                           then updateDuplicates sv accountId (duplicate_import_ids result)
                                  ynabTransactions w1
                           else w1)
                 in (Inr \<lparr>imported = importedCount, duplicates = duplicateCount,
                           total = int (length ynabTransactions)\<rparr>, w2))))"

section \<open>Deletion events: \<^verbatim>\<open>deleteFromYNAB\<close>\<close>

record DeleteResult =
  deleted :: bool
  notFound :: bool

text \<open>
  The loop over \<^verbatim>\<open>Object.values(accountMapping)\<close>.  Its \<^verbatim>\<open>try\<close> covers the listing and
  the delete call alike: after either fails, the search goes on with the next account.
\<close>

fun searchAccounts :: "setting \<Rightarrow> string \<Rightarrow> string list \<Rightarrow> world \<Rightarrow> DeleteResult \<times> world" where
  "searchAccounts sv key [] w = (\<lparr>deleted = False, notFound = True\<rparr>, w)"
| "searchAccounts sv key (ynabAccountId # rest) w =
     (case getTransactionsByAccount sv ynabAccountId w of
        (Inl e, w1) \<Rightarrow> searchAccounts sv key rest (logError ''Error searching account'' w1)
      | (Inr txs, w1) \<Rightarrow>
          (case find (\<lambda>tx. t_import_id tx = Some key) txs of
             None \<Rightarrow> searchAccounts sv key rest w1
           | Some transaction \<Rightarrow>
               (case deleteTransaction sv (t_id transaction) w1 of
                  (Inl e, w2) \<Rightarrow> searchAccounts sv key rest (logError ''Error searching account'' w2)
                | (Inr u, w2) \<Rightarrow> (\<lparr>deleted = True, notFound = False\<rparr>, w2))))"

text \<open>The account mapping is the list of \<^verbatim>\<open>Object.entries(accountMapping)\<close>, in order.\<close>

definition deleteFromYNAB ::
  "setting \<Rightarrow> (string \<times> string) list \<Rightarrow> string \<Rightarrow> world \<Rightarrow> DeleteResult \<times> world" where
  "deleteFromYNAB sv accountMapping upTransactionId w =
     searchAccounts sv (importId upTransactionId) (map snd accountMapping) w"

section \<open>Full reconciliation: \<^verbatim>\<open>performResyncAll\<close>\<close>

record OrphanedTransaction =
  ynabId :: string
  upId :: string
  o_payee :: string
  o_amount :: jsnum
  o_date :: string

record RestoredTransaction =
  r_upId :: string
  r_payee :: string
  r_amount :: jsnum
  r_date :: string

record AccountResult =
  a_upAccountId :: string
  a_ynabAccountId :: string
  a_imported :: int
  a_duplicates :: int

text \<open>
  \<^verbatim>\<open>ResyncAllResult\<close>; its fields \<^verbatim>\<open>imported\<close>, \<^verbatim>\<open>duplicates\<close> and \<^verbatim>\<open>total\<close> carry the
  names of the variables they are filled from, and \<^verbatim>\<open>message\<close> is named \<open>resultMessage\<close>.
\<close>

record ResyncAllResult =
  resultMessage :: string
  dryRun :: bool
  earliestDate :: "string option"
  totalImported :: int
  totalDuplicates :: int
  totalTransactions :: int
  orphanedDeleted :: nat
  orphanedTransactions :: "OrphanedTransaction list"
  restoredCount :: nat
  restoredTransactions :: "RestoredTransaction list"
  accounts :: "AccountResult list"

subsection \<open>Step 1: the target ledger's prefixed transactions and the earliest date\<close>

text \<open>The entries kept in \<^verbatim>\<open>ynabTransactionsByAccount\<close> (fields prefixed \<open>b_\<close>).\<close>

record UpBankTransaction =
  b_id :: string
  b_import_id :: string
  b_payee_name :: string
  b_amount :: jsnum
  b_date :: string

text \<open>\<^verbatim>\<open>tx.import_id?.startsWith('UPBANK:')\<close>\<close>

definition startsWithUPBANK :: "string option \<Rightarrow> bool" where
  "startsWithUPBANK k = (case k of None \<Rightarrow> False | Some s \<Rightarrow> take 7 s = ''UPBANK:'')"

definition upBankTransaction :: "TransactionDetail \<Rightarrow> UpBankTransaction" where
  "upBankTransaction tx =
     \<lparr> b_id = t_id tx, b_import_id = orElse (t_import_id tx) [],
       b_payee_name = orElse (t_payee_name tx) ''Unknown'',
       b_amount = t_amount tx, b_date = t_date tx \<rparr>"

definition upBankTransactions :: "TransactionDetail list \<Rightarrow> UpBankTransaction list" where
  "upBankTransactions txs =
     map upBankTransaction
       (filter (\<lambda>tx. startsWithUPBANK (t_import_id tx) \<and> \<not> t_deleted tx) txs)"

text \<open>\<^verbatim>\<open>Map.set\<close>: a key already present keeps its place in the iteration order.\<close>

fun mapSet :: "string \<Rightarrow> 'v \<Rightarrow> (string \<times> 'v) list \<Rightarrow> (string \<times> 'v) list" where
  "mapSet k v [] = [(k, v)]"
| "mapSet k v ((k', v') # m) = (if k' = k then (k, v) # m else (k', v') # mapSet k v m)"

text \<open>
  \<^verbatim>\<open>if (!tx.deleted && (!earliestDate || tx.date < earliestDate)) earliestDate = tx.date\<close>;
  an empty string is falsy.
\<close>

definition earlier :: "string option \<Rightarrow> TransactionDetail \<Rightarrow> string option" where
  "earlier e tx =
     (if \<not> t_deleted tx \<and> (case e of None \<Rightarrow> True | Some d \<Rightarrow> d = [] \<or> t_date tx < d)
      then Some (t_date tx) else e)"

text \<open>The first loop; a failed listing throws out of \<^verbatim>\<open>performResyncAll\<close>.\<close>

fun collectYnab ::
  "setting \<Rightarrow> string list \<Rightarrow> (string \<times> UpBankTransaction list) list \<times> string option \<Rightarrow> world
     \<Rightarrow> (error + (string \<times> UpBankTransaction list) list \<times> string option) \<times> world" where
  "collectYnab sv [] acc w = (Inr acc, w)"
| "collectYnab sv (ynabAccountId # rest) (byAccount, e) w =
     (case getTransactionsByAccount sv ynabAccountId w of
        (Inl err, w1) \<Rightarrow> (Inl err, w1)
      | (Inr txs, w1) \<Rightarrow>
          collectYnab sv rest
            (mapSet ynabAccountId (upBankTransactions txs) byAccount, foldl earlier e txs) w1)"

subsection \<open>Step 2: restorable keys\<close>

text \<open>
  The keys of \<^verbatim>\<open>restorableImportIds\<close>, a set of which the worker only asks membership:
  soft-deleted prefixed keys that no active transaction holds.
\<close>

definition restorableImportIds :: "TransactionDetail list \<Rightarrow> string list" where
  "restorableImportIds allTransactions =
     (let prefixed = filter (\<lambda>tx. startsWithUPBANK (t_import_id tx)) allTransactions;
          deletedUpbankImportIds = map (\<lambda>tx. orElse (t_import_id tx) []) (filter t_deleted prefixed);
          activeUpbankImportIds =
            map (\<lambda>tx. orElse (t_import_id tx) []) (filter (\<lambda>tx. \<not> t_deleted tx) prefixed)
      in filter (\<lambda>k. k \<notin> set activeUpbankImportIds) deletedUpbankImportIds)"

subsection \<open>Step 3: the source ledger's transactions since the earliest date\<close>

text \<open>
  The loop over \<^verbatim>\<open>Object.entries(accountMapping)\<close>: every fetched transaction adds its
  identifier cut to 29 characters to \<^verbatim>\<open>upBankIds\<close>, and is queued for restoration when
  its key is restorable.  A failed fetch throws out of \<^verbatim>\<open>performResyncAll\<close>.
\<close>

fun fetchAll ::
  "setting \<Rightarrow> string \<Rightarrow> string list \<Rightarrow> (string \<times> string) list
     \<Rightarrow> string list \<times> (TransactionResource \<times> string) list \<Rightarrow> world
     \<Rightarrow> (error + string list \<times> (TransactionResource \<times> string) list) \<times> world" where
  "fetchAll sv since restorable [] acc w = (Inr acc, w)"
| "fetchAll sv since restorable ((upAccount, ynabAccount) # rest) (upBankIds, queue) w =
     (case fetchUpTransactionsByAccount sv upAccount since w of
        (Inl err, w1) \<Rightarrow> (Inl err, w1)
      | (Inr upTransactions, w1) \<Rightarrow>
          fetchAll sv since restorable rest
            (upBankIds @ map (\<lambda>tx. take 29 (txid tx)) upTransactions,
             queue @ map (\<lambda>tx. (tx, ynabAccount))
                       (filter (\<lambda>tx. importId (txid tx) \<in> set restorable) upTransactions))
            w1)"

subsection \<open>Step 4: orphans\<close>

text \<open>\<^verbatim>\<open>s.replace(pat, '')\<close> with a string pattern: the first occurrence is removed.\<close>

fun removeFirst :: "string \<Rightarrow> string \<Rightarrow> string" where
  "removeFirst pat [] = []"
| "removeFirst pat (c # cs) =
     (if take (length pat) (c # cs) = pat then drop (length pat) (c # cs)
      else c # removeFirst pat cs)"

definition orphanOf :: "UpBankTransaction \<Rightarrow> OrphanedTransaction" where
  "orphanOf tx =
     \<lparr> ynabId = b_id tx, upId = removeFirst ''UPBANK:'' (b_import_id tx),
       o_payee = b_payee_name tx, o_amount = div1000 (b_amount tx), o_date = b_date tx \<rparr>"

definition findOrphans ::
  "string list \<Rightarrow> (string \<times> UpBankTransaction list) list \<Rightarrow> OrphanedTransaction list" where
  "findOrphans upBankIds byAccount =
     map orphanOf
       (filter (\<lambda>tx. removeFirst ''UPBANK:'' (b_import_id tx) \<notin> set upBankIds)
          (concat (map snd byAccount)))"

subsection \<open>Steps 1 to 4 together\<close>

text \<open>
  The code of \<^verbatim>\<open>performResyncAll\<close> before its first test of \<^verbatim>\<open>dryRun\<close>.  \<open>None\<close> is the
  early return when no earliest date was found.
\<close>

record ResyncPlan =
  p_earliestDate :: string
  p_transactionsToRestore :: "(TransactionResource \<times> string) list"
  p_orphanedTransactions :: "OrphanedTransaction list"

definition resyncPlan ::
  "setting \<Rightarrow> (string \<times> string) list \<Rightarrow> world \<Rightarrow> (error + ResyncPlan option) \<times> world" where
  "resyncPlan sv accountMapping w =
     (case collectYnab sv (map snd accountMapping) ([], None) w of
        (Inl err, w1) \<Rightarrow> (Inl err, w1)
      | (Inr (ynabTransactionsByAccount, e), w1) \<Rightarrow>
          if orElse e [] = [] then (Inr None, w1)
          else
            (case getTransactions sv w1 of
               (Inl err, w2) \<Rightarrow> (Inl err, w2)
             | (Inr allTransactions, w2) \<Rightarrow>
                 (case fetchAll sv (orElse e []) (restorableImportIds allTransactions)
                         accountMapping ([], []) w2 of
                    (Inl err, w3) \<Rightarrow> (Inl err, w3)
                  | (Inr (upBankIds, queue), w3) \<Rightarrow>
                      (Inr (Some \<lparr> p_earliestDate = orElse e [],
                                   p_transactionsToRestore = queue,
                                   p_orphanedTransactions =
                                     findOrphans upBankIds ynabTransactionsByAccount \<rparr>),
                       w3))))"

subsection \<open>Step 5: deleting orphans, restoring, syncing\<close>

text \<open>The loop over the orphans: a delete that fails is logged, and the loop goes on.\<close>

fun deleteOrphans :: "setting \<Rightarrow> OrphanedTransaction list \<Rightarrow> nat \<Rightarrow> world \<Rightarrow> nat \<times> world" where
  "deleteOrphans sv [] n w = (n, w)"
| "deleteOrphans sv (orphan # rest) n w =
     (case deleteTransaction sv (ynabId orphan) w of
        (Inl err, w1) \<Rightarrow> deleteOrphans sv rest n (logError ''Failed to delete orphan'' w1)
      | (Inr u, w1) \<Rightarrow> deleteOrphans sv rest (Suc n) w1)"

text \<open>\<^verbatim>\<open>byAccount\<close>: a map from target account to the queued source transactions.\<close>

fun pushTo :: "string \<Rightarrow> 'v \<Rightarrow> (string \<times> 'v list) list \<Rightarrow> (string \<times> 'v list) list" where
  "pushTo k v [] = [(k, [v])]"
| "pushTo k v ((k', vs) # m) = (if k' = k then (k', vs @ [v]) # m else (k', vs) # pushTo k v m)"

fun groupByAccount ::
  "(TransactionResource \<times> string) list \<Rightarrow> (string \<times> TransactionResource list) list
     \<Rightarrow> (string \<times> TransactionResource list) list" where
  "groupByAccount [] byAccount = byAccount"
| "groupByAccount ((upTx, ynabAccount) # rest) byAccount =
     groupByAccount rest (pushTo ynabAccount upTx byAccount)"

definition restoredOf :: "TransactionResource \<Rightarrow> RestoredTransaction" where
  "restoredOf upTx =
     \<lparr> r_upId = txid upTx,
       r_payee = orElse (attr description upTx) ''Unknown'',
       r_amount = parseFloat (orElse (amountValue upTx) ''0''),
       r_date = take 10 (orElse (attr settledAt upTx) (orElse (attr createdAt upTx) [])) \<rparr>"

text \<open>
  The loop over \<^verbatim>\<open>byAccount\<close>: one batched create per target account; a create that fails
  is logged, and the loop goes on.
\<close>

fun restoreAccounts ::
  "setting \<Rightarrow> (string \<times> TransactionResource list) list \<Rightarrow> nat \<times> RestoredTransaction list \<Rightarrow> world
     \<Rightarrow> (nat \<times> RestoredTransaction list) \<times> world" where
  "restoreAccounts sv [] acc w = (acc, w)"
| "restoreAccounts sv ((ynabAccount, upTxs) # rest) (n, restored) w =
     (let restoredTxs = map (restoredTx ynabAccount (clock sv)) upTxs
      in case createTransactions sv restoredTxs w of
           (Inl err, w1) \<Rightarrow>
             restoreAccounts sv rest (n, restored) (logError ''Failed to restore transactions'' w1)
         | (Inr r, w1) \<Rightarrow>
             restoreAccounts sv rest (n + length restoredTxs, restored @ map restoredOf upTxs) w1)"

text \<open>
  The last loop: fetch and \<^verbatim>\<open>syncToYNAB\<close> for every mapping; a failure of either throws
  out of \<^verbatim>\<open>performResyncAll\<close>.
\<close>

fun syncAccounts ::
  "setting \<Rightarrow> string \<Rightarrow> (string \<times> string) list \<Rightarrow> AccountResult list \<times> int \<times> int \<times> int \<Rightarrow> world
     \<Rightarrow> (error + AccountResult list \<times> int \<times> int \<times> int) \<times> world" where
  "syncAccounts sv since [] acc w = (Inr acc, w)"
| "syncAccounts sv since ((upAccount, ynabAccount) # rest) (results, ti, td, tt) w =
     (case fetchUpTransactionsByAccount sv upAccount since w of
        (Inl err, w1) \<Rightarrow> (Inl err, w1)
      | (Inr upTransactions, w1) \<Rightarrow>
          (case syncToYNAB sv ynabAccount upTransactions w1 of
             (Inl err, w2) \<Rightarrow> (Inl err, w2)
           | (Inr result, w2) \<Rightarrow>
               syncAccounts sv since rest
                 (results @ [\<lparr> a_upAccountId = upAccount, a_ynabAccountId = ynabAccount,
                               a_imported = imported result, a_duplicates = duplicates result \<rparr>],
                  ti + imported result, td + duplicates result, tt + total result)
                 w2))"

definition nothingToResync :: "bool \<Rightarrow> ResyncAllResult" where
  "nothingToResync dry =
     \<lparr> resultMessage = ''No existing transactions found in YNAB, nothing to resync'',
       dryRun = dry, earliestDate = None,
       totalImported = 0, totalDuplicates = 0, totalTransactions = 0,
       orphanedDeleted = 0, orphanedTransactions = [],
       restoredCount = 0, restoredTransactions = [], accounts = [] \<rparr>"

definition performResyncAll ::
  "setting \<Rightarrow> (string \<times> string) list \<Rightarrow> bool \<Rightarrow> world \<Rightarrow> (error + ResyncAllResult) \<times> world" where
  "performResyncAll sv accountMapping dry w =
     (case resyncPlan sv accountMapping w of
        (Inl err, w1) \<Rightarrow> (Inl err, w1)
      | (Inr None, w1) \<Rightarrow> (Inr (nothingToResync dry), w1)
      | (Inr (Some p), w1) \<Rightarrow>
          (let (deletedCount, w2) =
                 (if \<not> dry \<and> length (p_orphanedTransactions p) > 0
                  then deleteOrphans sv (p_orphanedTransactions p) 0 w1
                  else (0, w1));
               ((restoredN, restored), w3) =
                 (if \<not> dry \<and> length (p_transactionsToRestore p) > 0
                  then restoreAccounts sv (groupByAccount (p_transactionsToRestore p) []) (0, []) w2
                  else if length (p_transactionsToRestore p) > 0
                  then ((0, map (\<lambda>(upTx, a). restoredOf upTx) (p_transactionsToRestore p)), w2)
                  else ((0, []), w2));
               report = (\<lambda>(results, ti, td, tt).
                 \<lparr> resultMessage = (if dry then ''Dry run complete - no changes made''
                              else ''Full resync complete''),
                   dryRun = dry, earliestDate = Some (p_earliestDate p),
                   totalImported = ti, totalDuplicates = td, totalTransactions = tt,
                   orphanedDeleted = deletedCount,
                   orphanedTransactions = p_orphanedTransactions p,
                   restoredCount = restoredN, restoredTransactions = restored,
                   accounts = results \<rparr>)
           in if \<not> dry
              then (case syncAccounts sv (p_earliestDate p) accountMapping ([], 0, 0, 0) w3 of
                      (Inl err, w4) \<Rightarrow> (Inl err, w4)
                    | (Inr counts, w4) \<Rightarrow> (Inr (report counts), w4))
              else (Inr (report ([], 0, 0, 0)), w3)))"

section \<open>Notions used in the statements\<close>

text \<open>The requests that change the target ledger.\<close>

fun mutating :: "call \<Rightarrow> bool" where
  "mutating (CreateTransactions b) = True"
| "mutating (UpdateTransactions e) = True"
| "mutating (DeleteTransaction i) = True"
| "mutating c = False"

text \<open>What a listing of one account returns, and what a soft delete does to the ledger.\<close>

definition listing :: "setting \<Rightarrow> string \<Rightarrow> TransactionDetail list \<Rightarrow> TransactionDetail list" where
  "listing sv a l = filter (\<lambda>t. t_account_id t = a \<and> (listsDeleted sv \<or> \<not> t_deleted t)) l"

definition softDelete :: "string \<Rightarrow> TransactionDetail list \<Rightarrow> TransactionDetail list" where
  "softDelete i l = map (\<lambda>t. if t_id t = i then t\<lparr>t_deleted := True\<rparr> else t) l"

text \<open>
  The first transaction with a given key, searching the accounts in order and each
  account's listing in order.
\<close>

fun firstMatch :: "setting \<Rightarrow> string \<Rightarrow> string list \<Rightarrow> TransactionDetail list \<Rightarrow> TransactionDetail option" where
  "firstMatch sv key [] l = None"
| "firstMatch sv key (a # as) l =
     (case find (\<lambda>tx. t_import_id tx = Some key) (listing sv a l) of
        Some t \<Rightarrow> Some t
      | None \<Rightarrow> firstMatch sv key as l)"



text \<open>Concrete data, on which the theorems below are instantiated.\<close>

definition exampleTx :: "string \<Rightarrow> string \<Rightarrow> TransactionResource" where
  "exampleTx i st =
     \<lparr>txid = i,
      attributes = Some \<lparr>status = Some st, description = Some ''Shop'', message = None,
                          amount = Some \<lparr>mvalue = Some ''-10.56''\<rparr>,
                          settledAt = None, createdAt = Some ''2024-02-03T10:00:00+11:00''\<rparr>\<rparr>"

definition exampleEntry :: "string \<Rightarrow> string \<Rightarrow> string option \<Rightarrow> clearedStatus \<Rightarrow> bool \<Rightarrow> TransactionDetail" where
  "exampleEntry i a k c d =
     \<lparr>t_id = i, t_account_id = a, t_date = ''2024-02-03'', t_amount = Num (- 10560),
      t_payee_name = Some ''Shop'', t_memo = None, t_cleared = c, t_approved = False,
      t_import_id = k, t_deleted = d\<rparr>"

definition exampleSetting :: "TransactionResource list \<Rightarrow> (call list \<Rightarrow> call \<Rightarrow> bool) \<Rightarrow> setting" where
  "exampleSetting txs f =
     \<lparr>up = (\<lambda>a d. if a = ''up1'' then [txs] else []), faults = f, listsDeleted = False,
      clock = ''2024-05-05T00:00:00.000Z''\<rparr>"

definition exampleWorld :: "TransactionDetail list \<Rightarrow> world" where
  "exampleWorld l = \<lparr>ynab = l, calls = [], console = []\<rparr>"

definition noFaults :: "call list \<Rightarrow> call \<Rightarrow> bool" where
  "noFaults h c = False"

text \<open>A step that only reads: the ledger and the changing requests sent are as before.\<close>

definition readsOnly :: "world \<Rightarrow> world \<Rightarrow> bool" where
  "readsOnly w w' \<longleftrightarrow>
     ynab w' = ynab w \<and> filter mutating (calls w') = filter mutating (calls w) \<and>
     set (calls w) \<subseteq> set (calls w')"

text \<open>
  The identifiers, cut to 29 characters, of every source transaction served since a date
  for the mapped source accounts.
\<close>

definition sourceIds :: "setting \<Rightarrow> (string \<times> string) list \<Rightarrow> string \<Rightarrow> string set" where
  "sourceIds sv m since =
     (\<lambda>tx. take 29 (txid tx)) ` (\<Union>ua\<in>set m. set (concat (up sv (fst ua) since)))"

text \<open>A prefixed key that a soft-deleted transaction holds and no active one does.\<close>

definition restorableKey :: "TransactionDetail list \<Rightarrow> string \<Rightarrow> bool" where
  "restorableKey l k \<longleftrightarrow>
     take 7 k = ''UPBANK:'' \<and>
     (\<exists>d\<in>set l. t_deleted d \<and> t_import_id d = Some k) \<and>
     \<not> (\<exists>x\<in>set l. \<not> t_deleted x \<and> t_import_id x = Some k)"

text \<open>
  The requests of the two best-effort phases of a reconciliation: a delete, and a create
  whose entries carry no key.
\<close>

fun bestEffort :: "call \<Rightarrow> bool" where
  "bestEffort (DeleteTransaction i) = True"
| "bestEffort (CreateTransactions b) = (\<forall>x\<in>set b. s_import_id x = None)"
| "bestEffort c = False"

text \<open>An identifier of the ledger all of whose entries are soft-deleted.\<close>

definition gone :: "string \<Rightarrow> TransactionDetail list \<Rightarrow> bool" where
  "gone i l \<longleftrightarrow> i \<in> t_id ` set l \<and> (\<forall>t\<in>set l. t_id t = i \<longrightarrow> t_deleted t)"

section \<open>Doubles\<close>

text \<open>Floors and roundings of numerals, for running the definitions on concrete values.\<close>

lemma floor_rat_numeral_div [simp]: "\<lfloor>numeral a / numeral b :: rat\<rfloor> = numeral a div numeral b"
  using floor_divide_of_int_eq [of "numeral a" "numeral b", where ?'a = rat] by simp

lemma floor_rat_one_div [simp]: "\<lfloor>1 / numeral b :: rat\<rfloor> = 1 div numeral b"
  using floor_divide_of_int_eq [of 1 "numeral b", where ?'a = rat] by simp

lemma floor_rat_minus_numeral_div [simp]:
  "\<lfloor>- (numeral a / numeral b) :: rat\<rfloor> = - numeral a div numeral b"
  using floor_divide_of_int_eq [of "- numeral a" "numeral b", where ?'a = rat] by simp

lemma ceiling_rat_numeral_div [simp]:
  "\<lceil>numeral a / numeral b :: rat\<rceil> = - (- numeral a div numeral b)"
  using floor_divide_of_int_eq [of "- numeral a" "numeral b", where ?'a = rat]
  by (simp add: ceiling_def)

lemma ceiling_rat_one_div [simp]: "\<lceil>1 / numeral b :: rat\<rceil> = - (- 1 div numeral b)"
  using floor_divide_of_int_eq [of "- 1" "numeral b", where ?'a = rat]
  by (simp add: ceiling_def)

lemma round_rat_of_int_div:
  "0 < b \<Longrightarrow> round (of_int k / of_int b :: rat) = (2 * k + b) div (2 * b)"
proof -
  assume b: "0 < b"
  then have "(of_int k / of_int b :: rat) + 1 / 2 = of_int (2 * k + b) / of_int (2 * b)"
    by (simp add: field_simps)
  then show ?thesis
    unfolding round_def by (simp only: floor_divide_of_int_eq)
qed

lemma round_rat_numeral_div [simp]:
  "round (numeral a / numeral b :: rat) = (2 * numeral a + numeral b) div (2 * numeral b)"
  using round_rat_of_int_div [of "numeral b" "numeral a"] by simp

lemma round_rat_minus_numeral_div [simp]:
  "round (- (numeral a / numeral b) :: rat) = (2 * (- numeral a) + numeral b) div (2 * numeral b)"
  using round_rat_of_int_div [of "numeral b" "- numeral a"] by simp

lemma bitLength_0: "bitLength 0 = 0"
  by (simp add: bitLength.simps)

lemma bitLength_1: "bitLength 1 = 1"
  by (simp add: bitLength.simps)

lemma bitLength_Suc_0: "bitLength (Suc 0) = 1"
  by (simp add: bitLength.simps)

lemma bitLength_numeral: "bitLength (numeral k) = Suc (bitLength (numeral k div 2))"
  by (subst bitLength.simps) simp

lemmas double_defs = toDouble_def exponentOf_def pow2_def roundHalfEven_def Let_def
  bitLength_0 bitLength_1 bitLength_Suc_0 bitLength_numeral roundTimes1000_def












lemma roundHalfEven_floor: "\<lfloor>x\<rfloor> \<le> roundHalfEven x \<and> roundHalfEven x \<le> \<lfloor>x\<rfloor> + 1"
  by (simp add: roundHalfEven_def Let_def)





lemma mantissa_nonneg:
  assumes "0 < u" "0 \<le> a"
  shows "0 \<le> of_int (roundHalfEven (a / u)) * u"
proof -
  from assms have "0 \<le> a / u" by simp
  then have "0 \<le> \<lfloor>a / u\<rfloor>" by simp
  with roundHalfEven_floor [of "a / u"] have "0 \<le> roundHalfEven (a / u)" by linarith
  with assms(1) show ?thesis by simp
qed





lemma toDouble_zero [simp]: "toDouble 0 = Num 0"
  by (simp add: toDouble_def)



section \<open>The requests, one by one\<close>

lemma getTransactionsByAccount_eq:
  "getTransactionsByAccount sv a w =
     (if faults sv (calls w) (GetTransactionsByAccount a) then Inl YnabApiError
      else Inr (listing sv a (ynab w)),
      w\<lparr>calls := calls w @ [GetTransactionsByAccount a]\<rparr>)"
  by (simp add: getTransactionsByAccount_def request_def listing_def)

lemma deleteTransaction_eq:
  "deleteTransaction sv i w =
     (if faults sv (calls w) (DeleteTransaction i)
      then (Inl YnabApiError, w\<lparr>calls := calls w @ [DeleteTransaction i]\<rparr>)
      else (Inr (), w\<lparr>calls := calls w @ [DeleteTransaction i], ynab := softDelete i (ynab w)\<rparr>))"
  by (simp add: deleteTransaction_def request_def softDelete_def)

lemma logError_simps [simp]:
  "ynab (logError m w) = ynab w" "calls (logError m w) = calls w"
  "console (logError m w) = console w @ [Err m]"
  by (simp_all add: logError_def)

lemma find_listing_mem:
  "find P (listing sv a l) = Some t \<Longrightarrow> t \<in> set l \<and> t_account_id t = a \<and> P t"
  by (auto simp add: find_Some_iff listing_def dest: nth_mem)

lemma searchAccounts_general:
  "searchAccounts sv key as w = (r, w') \<Longrightarrow>
     (notFound r \<longleftrightarrow> \<not> deleted r) \<and>
     (\<exists>cs. calls w' = calls w @ cs \<and>
        (if deleted r
         then \<exists>t \<in> set (ynab w). t_import_id t = Some key \<and> t_account_id t \<in> set as \<and>
                ynab w' = softDelete (t_id t) (ynab w) \<and>
                cs \<noteq> [] \<and> last cs = DeleteTransaction (t_id t)
         else ynab w' = ynab w))"
proof (induction as arbitrary: w)
  case Nil
  then show ?case by auto
next
  case (Cons a as)
  let ?w1 = "w\<lparr>calls := calls w @ [GetTransactionsByAccount a]\<rparr>"
  have lift: ?case
    if c: "calls w1 = calls w @ pre" and y: "ynab w1 = ynab w"
      and s: "searchAccounts sv key as w1 = (r, w')" for w1 pre
  proof -
    from Cons.IH [OF s] obtain cs where
      n: "notFound r \<longleftrightarrow> \<not> deleted r" and cs: "calls w' = calls w1 @ cs"
      and q: "if deleted r
         then \<exists>t \<in> set (ynab w1). t_import_id t = Some key \<and> t_account_id t \<in> set as \<and>
                ynab w' = softDelete (t_id t) (ynab w1) \<and>
                cs \<noteq> [] \<and> last cs = DeleteTransaction (t_id t)
         else ynab w' = ynab w1"
      by blast
    show ?thesis
    proof (cases "deleted r")
      case True
      with q obtain t where "t \<in> set (ynab w1)" "t_import_id t = Some key" "t_account_id t \<in> set as"
        "ynab w' = softDelete (t_id t) (ynab w1)" "cs \<noteq> []" "last cs = DeleteTransaction (t_id t)"
        by auto
      with True n c y cs show ?thesis
        by (intro conjI exI [of _ "pre @ cs"]) (auto intro!: bexI [of _ t])
    next
      case False
      with q n c y cs show ?thesis
        by (intro conjI exI [of _ "pre @ cs"]) auto
    qed
  qed
  show ?case
  proof (cases "faults sv (calls w) (GetTransactionsByAccount a)")
    case True
    with Cons.prems have "searchAccounts sv key as (logError ''Error searching account'' ?w1) = (r, w')"
      by (simp add: getTransactionsByAccount_eq)
    then show ?thesis by (rule lift [rotated 2]) simp_all
  next
    case nofault: False
    show ?thesis
    proof (cases "find (\<lambda>tx. t_import_id tx = Some key) (listing sv a (ynab w))")
      case None
      with nofault Cons.prems have "searchAccounts sv key as ?w1 = (r, w')"
        by (simp add: getTransactionsByAccount_eq)
      then show ?thesis by (rule lift [rotated 2]) simp_all
    next
      case (Some t)
      note m = find_listing_mem [OF Some]
      show ?thesis
      proof (cases "faults sv (calls ?w1) (DeleteTransaction (t_id t))")
        case True
        with nofault Some Cons.prems
        have "searchAccounts sv key as
                (logError ''Error searching account''
                   (?w1\<lparr>calls := calls ?w1 @ [DeleteTransaction (t_id t)]\<rparr>)) = (r, w')"
          by (simp add: getTransactionsByAccount_eq deleteTransaction_eq)
        then show ?thesis by (rule lift [rotated 2]) simp_all
      next
        case False
        with nofault Some Cons.prems
        have "r = \<lparr>deleted = True, notFound = False\<rparr>"
          and "w' = ?w1\<lparr>calls := calls ?w1 @ [DeleteTransaction (t_id t)],
                        ynab := softDelete (t_id t) (ynab ?w1)\<rparr>"
          by (simp_all add: getTransactionsByAccount_eq deleteTransaction_eq)
        with m show ?thesis
          by (intro conjI exI [of _ "[GetTransactionsByAccount a, DeleteTransaction (t_id t)]"])
             (auto intro!: bexI [of _ t])
      qed
    qed
  qed
qed

lemma searchAccounts_none:
  "firstMatch sv key as (ynab w) = None \<Longrightarrow> searchAccounts sv key as w = (r, w') \<Longrightarrow>
     r = \<lparr>deleted = False, notFound = True\<rparr> \<and> ynab w' = ynab w \<and>
     (\<exists>cs. calls w' = calls w @ cs \<and> filter mutating cs = [])"
proof (induction as arbitrary: w)
  case Nil
  then show ?case by auto
next
  case (Cons a as)
  from Cons.prems(1) have f: "find (\<lambda>tx. t_import_id tx = Some key) (listing sv a (ynab w)) = None"
    and n: "firstMatch sv key as (ynab w) = None"
    by (auto split: option.splits)
  let ?w1 = "w\<lparr>calls := calls w @ [GetTransactionsByAccount a]\<rparr>"
  show ?case
  proof (cases "faults sv (calls w) (GetTransactionsByAccount a)")
    case True
    with Cons.prems have "searchAccounts sv key as (logError ''Error searching account'' ?w1) = (r, w')"
      by (simp add: getTransactionsByAccount_eq)
    from Cons.IH [OF _ this] n show ?thesis by auto
  next
    case False
    with f Cons.prems have "searchAccounts sv key as ?w1 = (r, w')"
      by (simp add: getTransactionsByAccount_eq)
    from Cons.IH [OF _ this] n show ?thesis by auto
  qed
qed

lemma searchAccounts_first:
  "\<forall>h c. \<not> faults sv h c \<Longrightarrow> firstMatch sv key as (ynab w) = Some t \<Longrightarrow>
   searchAccounts sv key as w = (r, w') \<Longrightarrow>
     r = \<lparr>deleted = True, notFound = False\<rparr> \<and> ynab w' = softDelete (t_id t) (ynab w) \<and>
     (\<exists>cs. calls w' = calls w @ cs \<and> filter mutating cs = [DeleteTransaction (t_id t)])"
proof (induction as arbitrary: w)
  case Nil
  then show ?case by auto
next
  case (Cons a as)
  let ?w1 = "w\<lparr>calls := calls w @ [GetTransactionsByAccount a]\<rparr>"
  show ?case
  proof (cases "find (\<lambda>tx. t_import_id tx = Some key) (listing sv a (ynab w))")
    case None
    with Cons.prems have "searchAccounts sv key as ?w1 = (r, w')"
      and "firstMatch sv key as (ynab ?w1) = Some t"
      by (simp_all add: getTransactionsByAccount_eq)
    from Cons.IH [OF Cons.prems(1) this(2) this(1)] show ?thesis by auto
  next
    case (Some u)
    with Cons.prems show ?thesis
      by (auto simp add: getTransactionsByAccount_eq deleteTransaction_eq)
  qed
qed

lemmas example_defs = exampleTx_def exampleEntry_def exampleSetting_def exampleWorld_def noFaults_def

lemma createTransactions_eq:
  "createTransactions sv b w =
     (if faults sv (calls w) (CreateTransactions b)
      then (Inl YnabApiError, w\<lparr>calls := calls w @ [CreateTransactions b]\<rparr>)
      else (Inr (acceptBatch b \<lparr>ledgerAfter = ynab w, createdTransactions = [], duplicate_import_ids = []\<rparr>),
            w\<lparr>calls := calls w @ [CreateTransactions b],
              ynab := ledgerAfter (acceptBatch b \<lparr>ledgerAfter = ynab w, createdTransactions = [],
                                                 duplicate_import_ids = []\<rparr>)\<rparr>))"
  by (simp add: createTransactions_def request_def Let_def)

lemma updateTransactions_eq:
  "updateTransactions sv es w =
     (if faults sv (calls w) (UpdateTransactions es)
      then (Inl YnabApiError, w\<lparr>calls := calls w @ [UpdateTransactions es]\<rparr>)
      else (Inr (length (filter (\<lambda>t. t_id t \<in> fst ` set es) (ynab w))),
            w\<lparr>calls := calls w @ [UpdateTransactions es], ynab := fold setCleared es (ynab w)\<rparr>))"
  by (simp add: updateTransactions_def request_def)

lemma getTransactions_eq:
  "getTransactions sv w =
     (if faults sv (calls w) GetTransactions then Inl YnabApiError else Inr (ynab w),
      w\<lparr>calls := calls w @ [GetTransactions]\<rparr>)"
  by (simp add: getTransactions_def request_def)

lemma syncToYNAB_result:
  "upTransactions \<noteq> [] \<Longrightarrow>
   fst (syncToYNAB sv a upTransactions w) =
     (let batch = map (ynabTransaction a (clock sv)) upTransactions;
          dups = duplicate_import_ids
                   (acceptBatch batch \<lparr>ledgerAfter = ynab w, createdTransactions = [],
                                        duplicate_import_ids = []\<rparr>)
      in if faults sv (calls w) (CreateTransactions batch) then Inl YnabApiError
         else Inr \<lparr>imported = int (length batch) - int (length dups),
                   duplicates = int (length dups), total = int (length batch)\<rparr>)"
  by (simp add: syncToYNAB_def createTransactions_eq Let_def)

lemma fetchPages_first_fault:
  "faults sv (calls w) (FetchUp u since n) \<Longrightarrow> pages \<noteq> [] \<Longrightarrow>
   fst (fetchPages sv u since n pages acc w) = Inl UpBankApiError"
  by (cases pages) (simp_all add: request_def)

lemma fetchUp_first_fault:
  "faults sv (calls w) (FetchUp u since 0) \<Longrightarrow>
   fst (fetchUpTransactionsByAccount sv u since w) = Inl UpBankApiError"
  by (simp add: fetchUpTransactionsByAccount_def fetchPages_first_fault split: list.splits)

lemma syncAccounts_propagates:
  "(fst (fetchUpTransactionsByAccount sv u since w) = Inl e \<longrightarrow>
      fst (syncAccounts sv since ((u, a) # rest) (rs, ti, td, tt) w) = Inl e) \<and>
   (\<forall>xs w1. fetchUpTransactionsByAccount sv u since w = (Inr xs, w1) \<and>
       fst (syncToYNAB sv a xs w1) = Inl e \<longrightarrow>
      fst (syncAccounts sv since ((u, a) # rest) (rs, ti, td, tt) w) = Inl e)"
  by (auto split: prod.splits sum.splits)


lemma updateDuplicates_eq:
  "updateDuplicates sv a dups batch w =
     (let w1 = w\<lparr>calls := calls w @ [GetTransactionsByAccount a]\<rparr>;
          toUpdate = transactionsToUpdate (desiredClearedStatus dups batch) (listing sv a (ynab w))
      in if faults sv (calls w) (GetTransactionsByAccount a)
         then logError ''Error updating duplicate transactions'' w1
         else if toUpdate = [] then w1
         else if faults sv (calls w1) (UpdateTransactions toUpdate)
         then logError ''Error updating duplicate transactions''
                (w1\<lparr>calls := calls w1 @ [UpdateTransactions toUpdate]\<rparr>)
         else w1\<lparr>calls := calls w1 @ [UpdateTransactions toUpdate],
                 ynab := fold setCleared toUpdate (ynab w)\<rparr>)"
  by (simp add: updateDuplicates_def getTransactionsByAccount_eq updateTransactions_eq Let_def)

lemma syncToYNAB_nonempty:
  "upTransactions \<noteq> [] \<Longrightarrow>
   syncToYNAB sv a upTransactions w =
     (let batch = map (ynabTransaction a (clock sv)) upTransactions;
          res = acceptBatch batch \<lparr>ledgerAfter = ynab w, createdTransactions = [],
                                    duplicate_import_ids = []\<rparr>;
          dups = duplicate_import_ids res;
          w0 = w\<lparr>console := console w @ concat (map statusWarning upTransactions),
                 calls := calls w @ [CreateTransactions batch]\<rparr>
      in if faults sv (calls w) (CreateTransactions batch)
         then (Inl YnabApiError, logError ''YNAB API error'' w0)
         else (Inr \<lparr>imported = int (length batch) - int (length dups),
                    duplicates = int (length dups), total = int (length batch)\<rparr>,
               if dups = [] then w0\<lparr>ynab := ledgerAfter res\<rparr>
               else updateDuplicates sv a dups batch (w0\<lparr>ynab := ledgerAfter res\<rparr>)))"
  by (simp add: syncToYNAB_def createTransactions_eq Let_def)


section \<open>The target ledger's batch operations\<close>

lemma fold_max_ge: "(x::nat) \<in> set xs \<Longrightarrow> x \<le> fold max xs m"
proof (induction xs arbitrary: m)
  case Nil
  then show ?case by simp
next
  case (Cons y ys)
  have mono: "m \<le> fold max ys m" for m :: nat
    by (induction ys arbitrary: m) (auto intro: order_trans [OF max.cobounded2])
  from Cons show ?case
    by (auto intro: order_trans [OF max.cobounded1 mono])
qed

lemma newId_fresh: "newId l \<notin> t_id ` set l"
proof
  assume "newId l \<in> t_id ` set l"
  then obtain t where t: "t \<in> set l" "t_id t = newId l" by auto
  from t(1) have "length (t_id t) \<in> set (map (\<lambda>t. length (t_id t)) l)" by auto
  from fold_max_ge [OF this, of 0] t(2) show False
    by (simp add: newId_def)
qed

lemma keyInUse_append: "keyInUse l k \<Longrightarrow> keyInUse (l @ xs) k"
  by (auto simp add: keyInUse_def)

lemma acceptBatch_keeps:
  "t \<in> set (ledgerAfter r) \<Longrightarrow> t \<in> set (ledgerAfter (acceptBatch ss r))"
  by (induction ss arbitrary: r) auto

lemma acceptBatch_distinct:
  "distinct (map t_id (ledgerAfter r)) \<Longrightarrow> distinct (map t_id (ledgerAfter (acceptBatch ss r)))"
proof (induction ss arbitrary: r)
  case Nil
  then show ?case by simp
next
  case (Cons s ss)
  show ?case
  proof (cases "keyInUse (ledgerAfter r) (s_import_id s)")
    case True
    with Cons show ?thesis by simp
  next
    case False
    have "distinct (map t_id (ledgerAfter r @ [newTransaction (ledgerAfter r) s]))"
      using Cons.prems newId_fresh [of "ledgerAfter r"] by (simp add: newTransaction_def)
    with False Cons.IH [of "r\<lparr>ledgerAfter := ledgerAfter r @ [newTransaction (ledgerAfter r) s],
                createdTransactions := createdTransactions r @ [newTransaction (ledgerAfter r) s]\<rparr>"]
    show ?thesis by simp
  qed
qed

lemma acceptBatch_key_in_use:
  "keyInUse (ledgerAfter r) (Some k) \<Longrightarrow>
     filter (\<lambda>x. t_import_id x = Some k) (ledgerAfter (acceptBatch ss r))
       = filter (\<lambda>x. t_import_id x = Some k) (ledgerAfter r)"
proof (induction ss arbitrary: r)
  case Nil
  then show ?case by simp
next
  case (Cons s ss)
  show ?case
  proof (cases "keyInUse (ledgerAfter r) (s_import_id s)")
    case True
    with Cons show ?thesis by simp
  next
    case False
    with Cons.prems have ne: "s_import_id s \<noteq> Some k" by auto
    let ?r = "r\<lparr>ledgerAfter := ledgerAfter r @ [newTransaction (ledgerAfter r) s],
                createdTransactions := createdTransactions r @ [newTransaction (ledgerAfter r) s]\<rparr>"
    have "keyInUse (ledgerAfter ?r) (Some k)"
      using Cons.prems by (simp add: keyInUse_append)
    from Cons.IH [OF this] False ne show ?thesis
      by (simp add: newTransaction_def)
  qed
qed

lemma acceptBatch_dups_grow:
  "k \<in> set (duplicate_import_ids r) \<Longrightarrow> k \<in> set (duplicate_import_ids (acceptBatch ss r))"
  by (induction ss arbitrary: r) auto

lemma acceptBatch_reports:
  "keyInUse (ledgerAfter r) (Some k) \<Longrightarrow> s \<in> set ss \<Longrightarrow> s_import_id s = Some k \<Longrightarrow> k \<noteq> [] \<Longrightarrow>
     k \<in> set (duplicate_import_ids (acceptBatch ss r))"
proof (induction ss arbitrary: r)
  case Nil
  then show ?case by simp
next
  case (Cons x ss)
  show ?case
  proof (cases "x = s")
    case True
    with Cons.prems show ?thesis
      by (simp add: acceptBatch_dups_grow)
  next
    case False
    with Cons.prems have "s \<in> set ss" by simp
    with Cons.IH Cons.prems show ?thesis
      by (simp add: keyInUse_append)
  qed
qed

lemma setCleared_mem:
  "t \<in> set l \<Longrightarrow> (if t_id t = fst e then t\<lparr>t_cleared := snd e\<rparr> else t) \<in> set (setCleared e l)"
  by (auto simp add: setCleared_def)

lemma fold_setCleared_sets:
  "t \<in> set l \<Longrightarrow> \<forall>e\<in>set es. fst e = t_id t \<longrightarrow> snd e = c \<Longrightarrow>
   (t_id t, c) \<in> set es \<or> t_cleared t = c \<Longrightarrow>
     t\<lparr>t_cleared := c\<rparr> \<in> set (fold setCleared es l)"
proof (induction es arbitrary: l t)
  case Nil
  then have e: "t\<lparr>t_cleared := c\<rparr> = t" by (cases t) auto
  from Nil.prems(1) show ?case by (simp only: fold_Nil id_apply e)
next
  case (Cons e es)
  let ?t1 = "if t_id t = fst e then t\<lparr>t_cleared := snd e\<rparr> else t"
  have m: "?t1 \<in> set (setCleared e l)"
    using Cons.prems(1) by (rule setCleared_mem)
  have i: "t_id ?t1 = t_id t" by simp
  have a: "\<forall>e\<in>set es. fst e = t_id ?t1 \<longrightarrow> snd e = c"
    using Cons.prems(2) by simp
  have b: "(t_id ?t1, c) \<in> set es \<or> t_cleared ?t1 = c"
    using Cons.prems(2,3) by (cases e) auto
  have "?t1\<lparr>t_cleared := c\<rparr> = t\<lparr>t_cleared := c\<rparr>" by simp
  with Cons.IH [OF m a b] show ?case by simp
qed

lemma setCleared_keys:
  "map (\<lambda>x. (t_id x, t_import_id x)) (setCleared e l) = map (\<lambda>x. (t_id x, t_import_id x)) l"
  by (simp add: setCleared_def)

lemma fold_setCleared_keys:
  "map (\<lambda>x. (t_id x, t_import_id x)) (fold setCleared es l) = map (\<lambda>x. (t_id x, t_import_id x)) l"
  by (induction es arbitrary: l) (simp_all add: setCleared_keys)

lemma ids_of_key:
  "map t_id (filter (\<lambda>x. t_import_id x = k) l)
     = map fst (filter (\<lambda>p. snd p = k) (map (\<lambda>x. (t_id x, t_import_id x)) l))"
  by (induction l) auto

lemma fold_setCleared_ids_of_key:
  "map t_id (filter (\<lambda>x. t_import_id x = k) (fold setCleared es l))
     = map t_id (filter (\<lambda>x. t_import_id x = k) l)"
  by (simp only: ids_of_key fold_setCleared_keys)

lemma importId_nonempty: "importId i \<noteq> []"
  by (simp add: importId_def)

lemma desired_all_same:
  assumes "s \<in> set batch" "s_import_id s = Some k" "k \<noteq> []" "k \<in> set dups"
    and "\<forall>x\<in>set batch. s_import_id x = Some k \<longrightarrow> s_cleared x = c"
    and "\<forall>x\<in>set batch. s_import_id x \<noteq> None"
  shows "desiredClearedStatus dups batch k = Some c"
proof -
  let ?ps = "rev (map (\<lambda>tx. (orElse (s_import_id tx) [], s_cleared tx))
                   (filter (\<lambda>tx. orElse (s_import_id tx) [] \<in> set dups) batch))"
  from assms(1-4) have "(k, s_cleared s) \<in> set ?ps" by force
  then have "k \<in> fst ` set ?ps" by force
  then obtain v where v: "map_of ?ps k = Some v"
    by (cases "map_of ?ps k") (auto simp add: map_of_eq_None_iff)
  from map_of_SomeD [OF v] obtain x where x: "x \<in> set batch" "orElse (s_import_id x) [] = k" "s_cleared x = v"
    by auto
  with assms(6) assms(3) have "s_import_id x = Some k"
    by (cases "s_import_id x") (auto split: if_splits)
  with assms(5) x have "v = c" by auto
  with v show ?thesis by (simp add: desiredClearedStatus_def)
qed

lemma transactionsToUpdate_mem:
  "(i, c) \<in> set (transactionsToUpdate desired l) \<longleftrightarrow>
     (\<exists>x\<in>set l. t_id x = i \<and> desired (orElse (t_import_id x) []) = Some c \<and> t_cleared x \<noteq> c)"
proof (induction l)
  case Nil
  show ?case by (simp add: transactionsToUpdate_def)
next
  case (Cons y l)
  from Cons show ?case
    unfolding transactionsToUpdate_def
    by (cases "desired (orElse (t_import_id y) [])")
       (auto split: if_splits)
qed


lemma listing_mem: "x \<in> set (listing sv a l) \<longleftrightarrow> x \<in> set l \<and> t_account_id x = a \<and> (listsDeleted sv \<or> \<not> t_deleted x)"
  by (auto simp add: listing_def)

section \<open>The mappers\<close>

lemmas parse_defs = parseFloat_def isDigit_def digitVal_def isWhiteSpace_def scaleByExponent_def
  double_defs

text \<open>
  Claim C5 (idempotency key determinism and bound).  The key is the prefix
  \<^verbatim>\<open>UPBANK:\<close> followed by the transaction's identifier, cut to 36 characters; it is at most
  36 characters long; the mapper of \<^verbatim>\<open>syncToYNAB\<close> puts exactly this key into every
  create; and two source transactions with the same identifier get the same key, whatever
  their other attributes, the target account and the time of the mapping.
\<close>

theorem importId_deterministic_bounded:
  "importId i = take 36 (''UPBANK:'' @ i) \<and> length (importId i) \<le> 36 \<and>
   s_import_id (ynabTransaction a n upTx) = Some (importId (txid upTx)) \<and>
   (txid upTx = txid upTx' \<longrightarrow>
      s_import_id (ynabTransaction a n upTx) = s_import_id (ynabTransaction a' n' upTx'))"
  by (simp add: importId_def ynabTransaction_def Let_def)

theorem importId_deterministic_bounded_witness:
  "txid \<lparr>txid = ''0a1b2c3d-1111-2222-3333-444455556666'', attributes = None\<rparr>
     = txid \<lparr>txid = ''0a1b2c3d-1111-2222-3333-444455556666'',
             attributes = Some \<lparr>status = Some ''SETTLED'', description = None, message = None,
                                 amount = None, settledAt = None, createdAt = None\<rparr>\<rparr> \<and>
   s_import_id (ynabTransaction ''acc1'' ''2024-05-05T00:00:00.000Z''
        \<lparr>txid = ''0a1b2c3d-1111-2222-3333-444455556666'', attributes = None\<rparr>)
     = s_import_id (ynabTransaction ''acc2'' ''2025-01-01T00:00:00.000Z''
        \<lparr>txid = ''0a1b2c3d-1111-2222-3333-444455556666'',
          attributes = Some \<lparr>status = Some ''SETTLED'', description = None, message = None,
                              amount = None, settledAt = None, createdAt = None\<rparr>\<rparr>) \<and>
   importId ''0a1b2c3d-1111-2222-3333-444455556666'' = ''UPBANK:0a1b2c3d-1111-2222-3333-44445''"
  using importId_deterministic_bounded
    [of "''0a1b2c3d-1111-2222-3333-444455556666''" "''acc1''" "''2024-05-05T00:00:00.000Z''"
        "\<lparr>txid = ''0a1b2c3d-1111-2222-3333-444455556666'', attributes = None\<rparr>"
        "\<lparr>txid = ''0a1b2c3d-1111-2222-3333-444455556666'',
          attributes = Some \<lparr>status = Some ''SETTLED'', description = None, message = None,
                              amount = None, settledAt = None, createdAt = None\<rparr>\<rparr>"
        "''acc2''" "''2025-01-01T00:00:00.000Z''"]
  by (auto simp add: importId_def)




text \<open>
  Claim C7 (fail-safe cleared state in both paths).  The mapper of \<^verbatim>\<open>syncToYNAB\<close> maps an
  unrecognized status to \<^verbatim>\<open>Uncleared\<close> and warns; the restoration mapper of
  \<^verbatim>\<open>performResyncAll\<close> tests for \<^verbatim>\<open>HELD\<close> only, so the same transaction is restored as
  \<^verbatim>\<open>Cleared\<close>.  Here both mappers run on a transaction whose status is \<^verbatim>\<open>PENDING\<close>.
\<close>

theorem restoredTx_unrecognized_status:
  "s_cleared (restoredTx ''acc1'' ''2024-05-05T00:00:00.000Z''
      \<lparr>txid = ''t1'',
        attributes = Some \<lparr>status = Some ''PENDING'', description = Some ''Shop'', message = None,
                            amount = Some \<lparr>mvalue = Some ''-10.56''\<rparr>,
                            settledAt = None, createdAt = Some ''2024-02-03T10:00:00+11:00''\<rparr>\<rparr>)
     = Cleared \<and>
   s_cleared (ynabTransaction ''acc1'' ''2024-05-05T00:00:00.000Z''
      \<lparr>txid = ''t1'',
        attributes = Some \<lparr>status = Some ''PENDING'', description = Some ''Shop'', message = None,
                            amount = Some \<lparr>mvalue = Some ''-10.56''\<rparr>,
                            settledAt = None, createdAt = Some ''2024-02-03T10:00:00+11:00''\<rparr>\<rparr>)
     = Uncleared \<and>
   statusWarning
      \<lparr>txid = ''t1'',
        attributes = Some \<lparr>status = Some ''PENDING'', description = Some ''Shop'', message = None,
                            amount = Some \<lparr>mvalue = Some ''-10.56''\<rparr>,
                            settledAt = None, createdAt = Some ''2024-02-03T10:00:00+11:00''\<rparr>\<rparr>
     = [Warn ''Unexpected Up Bank transaction status for transaction t1'']"
  by (simp add: restoredTx_def ynabTransaction_def clearedStatusOf_def statusWarning_def attr_def)

section \<open>Cleared-state convergence\<close>

text \<open>
  Claim C1 says that every target transaction created \<^verbatim>\<open>Uncleared\<close> for a held source
  transaction becomes \<^verbatim>\<open>Cleared\<close> when the source settles and the sync runs again.  The key
  is cut to 36 characters, so two source transactions whose identifiers agree on their
  first 29 characters share one key, and the map of desired states keeps the state of the
  last one in the batch.  Here two such transactions are held and synced into an empty
  ledger (one target transaction is created, \<^verbatim>\<open>Uncleared\<close>); then the first one settles, the
  second one is still held, and the sync runs again with no failing request: both are
  reported as duplicates, no update is sent, and the target transaction stays
  \<^verbatim>\<open>Uncleared\<close>.
\<close>

theorem cleared_state_collision_counterexample:
  "importId ''aaaaaaaaaaaaaaaaaaaaaaaaaaaaa1'' = ''UPBANK:aaaaaaaaaaaaaaaaaaaaaaaaaaaaa'' \<and>
   importId ''aaaaaaaaaaaaaaaaaaaaaaaaaaaaa2'' = ''UPBANK:aaaaaaaaaaaaaaaaaaaaaaaaaaaaa'' \<and>
   ynab (snd (syncToYNAB (exampleSetting [] noFaults) ''y1''
          [exampleTx ''aaaaaaaaaaaaaaaaaaaaaaaaaaaaa1'' ''HELD'',
           exampleTx ''aaaaaaaaaaaaaaaaaaaaaaaaaaaaa2'' ''HELD'']
          (exampleWorld [])))
     = [exampleEntry ''#'' ''y1'' (Some ''UPBANK:aaaaaaaaaaaaaaaaaaaaaaaaaaaaa'') Uncleared False] \<and>
   syncToYNAB (exampleSetting [] noFaults) ''y1''
          [exampleTx ''aaaaaaaaaaaaaaaaaaaaaaaaaaaaa1'' ''SETTLED'',
           exampleTx ''aaaaaaaaaaaaaaaaaaaaaaaaaaaaa2'' ''HELD'']
          (exampleWorld
             [exampleEntry ''#'' ''y1'' (Some ''UPBANK:aaaaaaaaaaaaaaaaaaaaaaaaaaaaa'') Uncleared False])
     = (Inr \<lparr>imported = 0, duplicates = 2, total = 2\<rparr>,
        \<lparr>ynab = [exampleEntry ''#'' ''y1'' (Some ''UPBANK:aaaaaaaaaaaaaaaaaaaaaaaaaaaaa'') Uncleared False],
          calls = [CreateTransactions
                     [ynabTransaction ''y1'' ''2024-05-05T00:00:00.000Z''
                        (exampleTx ''aaaaaaaaaaaaaaaaaaaaaaaaaaaaa1'' ''SETTLED''),
                      ynabTransaction ''y1'' ''2024-05-05T00:00:00.000Z''
                        (exampleTx ''aaaaaaaaaaaaaaaaaaaaaaaaaaaaa2'' ''HELD'')],
                   GetTransactionsByAccount ''y1''],
          console = []\<rparr>)"
  by (simp add: syncToYNAB_nonempty updateDuplicates_eq Let_def importId_def
        ynabTransaction_def clearedStatusOf_def statusWarning_def attr_def amountValue_def
        keyInUse_def newTransaction_def newId_def listing_def
        desiredClearedStatus_def transactionsToUpdate_def
        parse_defs example_defs logError_def)



text \<open>
  Claim C1, amended.  Let the ledger's identifiers be distinct, let \<open>t\<close> be a transaction
  of the synced target account that is not deleted, is \<^verbatim>\<open>Uncleared\<close> and carries the key of
  the source transaction \<open>s\<close>; let \<open>s\<close> be in the batch with status \<^verbatim>\<open>SETTLED\<close>, and let
  every source transaction of the batch with the same key be \<^verbatim>\<open>SETTLED\<close> too; let no
  request fail.  Then the batched create reports the key as a duplicate, the sync returns
  its counts, it sends one update that sets \<open>t\<close> to \<^verbatim>\<open>Cleared\<close>, the ledger then holds \<open>t\<close>
  as \<^verbatim>\<open>Cleared\<close>, and the transactions carrying the key are the same as before: none was
  created.
\<close>

theorem cleared_state_convergence:
  assumes nofault: "\<forall>h c. \<not> faults sv h c"
    and ids: "distinct (map t_id (ynab w))"
    and t: "t \<in> set (ynab w)" "t_account_id t = a" "\<not> t_deleted t"
           "t_import_id t = Some (importId (txid s))" "t_cleared t = Uncleared"
    and s: "s \<in> set upTransactions" "attr status s = Some ''SETTLED''"
    and same: "\<forall>u\<in>set upTransactions. importId (txid u) = importId (txid s)
                 \<longrightarrow> attr status u = Some ''SETTLED''"
  shows "(let batch = map (ynabTransaction a (clock sv)) upTransactions;
              res = acceptBatch batch \<lparr>ledgerAfter = ynab w, createdTransactions = [],
                                        duplicate_import_ids = []\<rparr>;
              out = syncToYNAB sv a upTransactions w
          in importId (txid s) \<in> set (duplicate_import_ids res) \<and>
             fst out = Inr \<lparr>imported = int (length batch) - int (length (duplicate_import_ids res)),
                            duplicates = int (length (duplicate_import_ids res)),
                            total = int (length batch)\<rparr> \<and>
             (\<exists>es. calls (snd out) = calls w @ [CreateTransactions batch, GetTransactionsByAccount a,
                                                UpdateTransactions es] \<and>
                   (t_id t, Cleared) \<in> set es) \<and>
             t\<lparr>t_cleared := Cleared\<rparr> \<in> set (ynab (snd out)) \<and>
             map t_id (filter (\<lambda>x. t_import_id x = Some (importId (txid s))) (ynab (snd out)))
               = map t_id (filter (\<lambda>x. t_import_id x = Some (importId (txid s))) (ynab w)))"
proof -
  let ?K = "importId (txid s)"
  let ?batch = "map (ynabTransaction a (clock sv)) upTransactions"
  let ?res = "acceptBatch ?batch \<lparr>ledgerAfter = ynab w, createdTransactions = [],
                                   duplicate_import_ids = []\<rparr>"
  let ?dups = "duplicate_import_ids ?res"
  let ?L = "ledgerAfter ?res"
  let ?sb = "ynabTransaction a (clock sv) s"
  let ?desired = "desiredClearedStatus ?dups ?batch"
  let ?es = "transactionsToUpdate ?desired (listing sv a ?L)"
  have ne: "upTransactions \<noteq> []" using s(1) by auto
  have sb: "?sb \<in> set ?batch" "s_import_id ?sb = Some ?K" "s_cleared ?sb = Cleared"
    using s by (auto simp add: ynabTransaction_def Let_def clearedStatusOf_def)
  have inuse: "keyInUse (ynab w) (Some ?K)"
    using t(1,4) by (force simp add: keyInUse_def)
  have dup: "?K \<in> set ?dups"
    using acceptBatch_reports [OF _ sb(1,2) importId_nonempty] inuse by simp
  then have dne: "?dups \<noteq> []" by auto
  have allc: "\<forall>x\<in>set ?batch. s_import_id x = Some ?K \<longrightarrow> s_cleared x = Cleared"
    using same by (auto simp add: ynabTransaction_def Let_def clearedStatusOf_def)
  have alls: "\<forall>x\<in>set ?batch. s_import_id x \<noteq> None"
    by (auto simp add: ynabTransaction_def Let_def)
  have des: "?desired ?K = Some Cleared"
    using desired_all_same [OF sb(1,2) importId_nonempty dup allc alls] .
  have tL: "t \<in> set ?L"
    using acceptBatch_keeps [of t _ ?batch] t(1) by simp
  then have tl: "t \<in> set (listing sv a ?L)"
    using t(2,3) by (simp add: listing_mem)
  have dL: "distinct (map t_id ?L)"
    using acceptBatch_distinct [of _ ?batch] ids by simp
  have oe: "orElse (t_import_id t) [] = ?K"
    using t(4) by (simp add: importId_nonempty)
  have mem: "(t_id t, Cleared) \<in> set ?es"
    unfolding transactionsToUpdate_mem using tl oe des t(5) by (intro bexI [of _ t]) auto
  then have ene: "?es \<noteq> []" by auto
  have only: "\<forall>e\<in>set ?es. fst e = t_id t \<longrightarrow> snd e = Cleared"
  proof (intro ballI impI)
    fix e assume e: "e \<in> set ?es" "fst e = t_id t"
    have "e = (fst e, snd e)" by simp
    with e have "(t_id t, snd e) \<in> set ?es" by metis
    then obtain x where x: "x \<in> set (listing sv a ?L)" "t_id x = t_id t"
      "?desired (orElse (t_import_id x) []) = Some (snd e)"
      unfolding transactionsToUpdate_mem by blast
    from x(1) have "x \<in> set ?L" by (simp add: listing_mem)
    with dL tL x(2) have "x = t"
      by (auto simp add: distinct_map dest: inj_onD)
    with x(3) oe des show "snd e = Cleared" by simp
  qed
  have upd: "t\<lparr>t_cleared := Cleared\<rparr> \<in> set (fold setCleared ?es ?L)"
    using fold_setCleared_sets [OF tL only] mem by blast
  have keep: "map t_id (filter (\<lambda>x. t_import_id x = Some ?K) (fold setCleared ?es ?L))
               = map t_id (filter (\<lambda>x. t_import_id x = Some ?K) (ynab w))"
    using acceptBatch_key_in_use [of _ ?K ?batch] inuse
    by (simp add: fold_setCleared_ids_of_key)
  have out: "syncToYNAB sv a upTransactions w =
     (Inr \<lparr>imported = int (length ?batch) - int (length ?dups),
            duplicates = int (length ?dups), total = int (length ?batch)\<rparr>,
      w\<lparr>console := console w @ concat (map statusWarning upTransactions),
        calls := calls w @ [CreateTransactions ?batch, GetTransactionsByAccount a,
                           UpdateTransactions ?es],
        ynab := fold setCleared ?es ?L\<rparr>)"
    using nofault dne ene
    by (simp add: syncToYNAB_nonempty [OF ne] updateDuplicates_eq Let_def)
  show ?thesis
    unfolding Let_def out using dup mem upd keep by auto
qed


theorem cleared_state_convergence_witness:
  "exampleEntry ''A'' ''y1'' (Some ''UPBANK:tx-1'') Uncleared False
     \<in> set (ynab (exampleWorld [exampleEntry ''A'' ''y1'' (Some ''UPBANK:tx-1'') Uncleared False])) \<and>
   attr status (exampleTx ''tx-1'' ''SETTLED'') = Some ''SETTLED'' \<and>
   fst (syncToYNAB (exampleSetting [] noFaults) ''y1'' [exampleTx ''tx-1'' ''SETTLED'']
          (exampleWorld [exampleEntry ''A'' ''y1'' (Some ''UPBANK:tx-1'') Uncleared False]))
     = Inr \<lparr>imported = 0, duplicates = 1, total = 1\<rparr> \<and>
   exampleEntry ''A'' ''y1'' (Some ''UPBANK:tx-1'') Cleared False
     \<in> set (ynab (snd (syncToYNAB (exampleSetting [] noFaults) ''y1'' [exampleTx ''tx-1'' ''SETTLED'']
          (exampleWorld [exampleEntry ''A'' ''y1'' (Some ''UPBANK:tx-1'') Uncleared False])))) \<and>
   map t_id (filter (\<lambda>x. t_import_id x = Some ''UPBANK:tx-1'')
     (ynab (snd (syncToYNAB (exampleSetting [] noFaults) ''y1'' [exampleTx ''tx-1'' ''SETTLED'']
          (exampleWorld [exampleEntry ''A'' ''y1'' (Some ''UPBANK:tx-1'') Uncleared False])))))
     = [''A'']"
proof -
  let ?sv = "exampleSetting [] noFaults"
  let ?t = "exampleEntry ''A'' ''y1'' (Some ''UPBANK:tx-1'') Uncleared False"
  let ?w = "exampleWorld [?t]"
  let ?s = "exampleTx ''tx-1'' ''SETTLED''"
  have k: "importId (txid ?s) = ''UPBANK:tx-1''"
    by (simp add: importId_def exampleTx_def)
  have h1: "\<forall>h c. \<not> faults ?sv h c" by (simp add: example_defs)
  have h2: "distinct (map t_id (ynab ?w))" by (simp add: example_defs)
  have h3: "?t \<in> set (ynab ?w)" "t_account_id ?t = ''y1''" "\<not> t_deleted ?t"
    "t_import_id ?t = Some (importId (txid ?s))" "t_cleared ?t = Uncleared"
    by (simp_all add: k) (simp_all add: example_defs)
  have h4: "?s \<in> set [?s]" "attr status ?s = Some ''SETTLED''"
    by (simp_all add: attr_def exampleTx_def)
  have h5: "\<forall>u\<in>set [?s]. importId (txid u) = importId (txid ?s) \<longrightarrow> attr status u = Some ''SETTLED''"
    using h4 by simp
  have b: "s_import_id (ynabTransaction ''y1'' (clock ?sv) ?s) = Some ''UPBANK:tx-1''"
    by (simp add: ynabTransaction_def Let_def k)
  have d: "duplicate_import_ids
             (acceptBatch (map (ynabTransaction ''y1'' (clock ?sv)) [?s])
                \<lparr>ledgerAfter = ynab ?w, createdTransactions = [], duplicate_import_ids = []\<rparr>)
           = [''UPBANK:tx-1'']"
    by (simp add: b keyInUse_def exampleEntry_def exampleWorld_def)
  have c: "?t\<lparr>t_cleared := Cleared\<rparr> = exampleEntry ''A'' ''y1'' (Some ''UPBANK:tx-1'') Cleared False"
    by (simp add: exampleEntry_def)
  have y: "map t_id (filter (\<lambda>x. t_import_id x = Some ''UPBANK:tx-1'') (ynab ?w)) = [''A'']"
    by (simp add: exampleEntry_def exampleWorld_def)
  from cleared_state_convergence [OF h1 h2 h3 h4 h5]
  show ?thesis
    unfolding Let_def d k c y using h3(1) h4(2) by simp
qed

section \<open>Deletion events\<close>

text \<open>
  Claim C10 (at most one deletion per source-deletion event).  For every outcome of
  \<^verbatim>\<open>deleteFromYNAB\<close>, whatever requests fail: \<^verbatim>\<open>notFound\<close> is the negation of
  \<^verbatim>\<open>deleted\<close>; when \<^verbatim>\<open>deleted\<close> is reported, the ledger differs from the initial one by the
  soft delete of one transaction that carries the derived key and lies in a mapped
  account, and that delete is the last request sent (the search stops); otherwise the
  ledger is unchanged.  When no mapped account lists a transaction with the key, the
  result is \<^verbatim>\<open>{deleted: false, notFound: true}\<close> and no create, update or delete is sent.
  When no request fails and some account lists a match, the transaction deleted is the
  first match of the first such account in mapping order, and the delete of it is the
  only changing request, even if later accounts hold a match too.
\<close>

theorem deleteFromYNAB_at_most_one:
  "deleteFromYNAB sv m i w = (r, w') \<Longrightarrow>
     (notFound r \<longleftrightarrow> \<not> deleted r) \<and>
     (\<exists>cs. calls w' = calls w @ cs \<and>
        (if deleted r
         then \<exists>t \<in> set (ynab w). t_import_id t = Some (importId i) \<and> t_account_id t \<in> snd ` set m \<and>
                ynab w' = softDelete (t_id t) (ynab w) \<and>
                cs \<noteq> [] \<and> last cs = DeleteTransaction (t_id t)
         else ynab w' = ynab w) \<and>
        (firstMatch sv (importId i) (map snd m) (ynab w) = None \<longrightarrow>
           r = \<lparr>deleted = False, notFound = True\<rparr> \<and> filter mutating cs = []) \<and>
        ((\<forall>h c. \<not> faults sv h c) \<longrightarrow>
           (\<forall>t. firstMatch sv (importId i) (map snd m) (ynab w) = Some t \<longrightarrow>
              r = \<lparr>deleted = True, notFound = False\<rparr> \<and>
              ynab w' = softDelete (t_id t) (ynab w) \<and>
              filter mutating cs = [DeleteTransaction (t_id t)])))"
proof -
  assume a: "deleteFromYNAB sv m i w = (r, w')"
  then have s: "searchAccounts sv (importId i) (map snd m) w = (r, w')"
    by (simp add: deleteFromYNAB_def)
  from searchAccounts_general [OF s] obtain cs where
    g: "notFound r \<longleftrightarrow> \<not> deleted r" "calls w' = calls w @ cs"
       "if deleted r
         then \<exists>t \<in> set (ynab w). t_import_id t = Some (importId i) \<and> t_account_id t \<in> set (map snd m) \<and>
                ynab w' = softDelete (t_id t) (ynab w) \<and>
                cs \<noteq> [] \<and> last cs = DeleteTransaction (t_id t)
         else ynab w' = ynab w"
    by blast
  have n: "firstMatch sv (importId i) (map snd m) (ynab w) = None \<longrightarrow>
           r = \<lparr>deleted = False, notFound = True\<rparr> \<and> filter mutating cs = []"
    using searchAccounts_none [OF _ s] g(2) by auto
  have f: "(\<forall>h c. \<not> faults sv h c) \<longrightarrow>
           (\<forall>t. firstMatch sv (importId i) (map snd m) (ynab w) = Some t \<longrightarrow>
              r = \<lparr>deleted = True, notFound = False\<rparr> \<and>
              ynab w' = softDelete (t_id t) (ynab w) \<and>
              filter mutating cs = [DeleteTransaction (t_id t)])"
    using searchAccounts_first [OF _ _ s] g(2) by auto
  from g n f show ?thesis by (intro conjI exI [of _ cs]) (simp_all split: if_splits)
qed

theorem deleteFromYNAB_at_most_one_witness:
  "(\<forall>h c. \<not> faults (exampleSetting [] noFaults) h c) \<and>
   firstMatch (exampleSetting [] noFaults) (importId ''tx-1'') (map snd [(''up1'', ''y1''), (''up2'', ''y2'')])
     (ynab (exampleWorld [exampleEntry ''A'' ''y1'' (Some ''UPBANK:tx-1'') Cleared False,
                          exampleEntry ''B'' ''y2'' (Some ''UPBANK:tx-1'') Cleared False]))
     = Some (exampleEntry ''A'' ''y1'' (Some ''UPBANK:tx-1'') Cleared False) \<and>
   fst (deleteFromYNAB (exampleSetting [] noFaults) [(''up1'', ''y1''), (''up2'', ''y2'')] ''tx-1''
          (exampleWorld [exampleEntry ''A'' ''y1'' (Some ''UPBANK:tx-1'') Cleared False,
                         exampleEntry ''B'' ''y2'' (Some ''UPBANK:tx-1'') Cleared False]))
     = \<lparr>deleted = True, notFound = False\<rparr> \<and>
   ynab (snd (deleteFromYNAB (exampleSetting [] noFaults) [(''up1'', ''y1''), (''up2'', ''y2'')] ''tx-1''
          (exampleWorld [exampleEntry ''A'' ''y1'' (Some ''UPBANK:tx-1'') Cleared False,
                         exampleEntry ''B'' ''y2'' (Some ''UPBANK:tx-1'') Cleared False])))
     = [exampleEntry ''A'' ''y1'' (Some ''UPBANK:tx-1'') Cleared True,
        exampleEntry ''B'' ''y2'' (Some ''UPBANK:tx-1'') Cleared False]"
proof -
  let ?sv = "exampleSetting [] noFaults"
  let ?m = "[(''up1'', ''y1''), (''up2'', ''y2'')]"
  let ?A = "exampleEntry ''A'' ''y1'' (Some ''UPBANK:tx-1'') Cleared False"
  let ?w = "exampleWorld [?A, exampleEntry ''B'' ''y2'' (Some ''UPBANK:tx-1'') Cleared False]"
  have nf: "\<forall>h c. \<not> faults ?sv h c"
    by (simp add: example_defs)
  have fm: "firstMatch ?sv (importId ''tx-1'') (map snd ?m) (ynab ?w) = Some ?A"
    by (simp add: example_defs importId_def listing_def)
  have sd: "softDelete (t_id ?A) (ynab ?w)
              = [exampleEntry ''A'' ''y1'' (Some ''UPBANK:tx-1'') Cleared True,
                 exampleEntry ''B'' ''y2'' (Some ''UPBANK:tx-1'') Cleared False]"
    by (simp add: example_defs softDelete_def)
  from deleteFromYNAB_at_most_one [OF surjective_pairing, of ?sv ?m "''tx-1''" ?w] nf fm
  have "fst (deleteFromYNAB ?sv ?m ''tx-1'' ?w) = \<lparr>deleted = True, notFound = False\<rparr> \<and>
        ynab (snd (deleteFromYNAB ?sv ?m ''tx-1'' ?w)) = softDelete (t_id ?A) (ynab ?w)"
    by blast
  with nf fm sd show ?thesis by simp
qed

section \<open>Incremental sync\<close>

text \<open>
  Claim C9 (best-effort cleared-state fix-up).  For a non-empty batch, whatever requests
  fail: when the batched create fails, \<^verbatim>\<open>syncToYNAB\<close> fails with its error; when the
  batched create succeeds, \<^verbatim>\<open>syncToYNAB\<close> returns \<^verbatim>\<open>{imported, duplicates, total}\<close> computed
  from the create's response alone, also when the listing or the update of the fix-up
  fails.  In that case the failure is written to the console, and the ledger is as the
  create left it.  A fetch whose first page fails returns an error, and the loop that
  calls the fetch and then \<^verbatim>\<open>syncToYNAB\<close> fails with the error of either.
\<close>

theorem syncToYNAB_fixup_best_effort:
  "(upTransactions \<noteq> [] \<longrightarrow>
      (let batch = map (ynabTransaction a (clock sv)) upTransactions;
           res = acceptBatch batch \<lparr>ledgerAfter = ynab w, createdTransactions = [],
                                     duplicate_import_ids = []\<rparr>;
           dups = duplicate_import_ids res;
           sent = calls w @ [CreateTransactions batch];
           toUpdate = transactionsToUpdate (desiredClearedStatus dups batch)
                        (listing sv a (ledgerAfter res));
           out = syncToYNAB sv a upTransactions w
       in (if faults sv (calls w) (CreateTransactions batch) then fst out = Inl YnabApiError
           else fst out = Inr \<lparr>imported = int (length batch) - int (length dups),
                               duplicates = int (length dups), total = int (length batch)\<rparr>) \<and>
          (\<not> faults sv (calls w) (CreateTransactions batch) \<and> dups \<noteq> [] \<and>
           (faults sv sent (GetTransactionsByAccount a) \<or>
            toUpdate \<noteq> [] \<and>
            faults sv (sent @ [GetTransactionsByAccount a]) (UpdateTransactions toUpdate)) \<longrightarrow>
             ynab (snd out) = ledgerAfter res \<and>
             console (snd out) = console w @ concat (map statusWarning upTransactions)
                                  @ [Err ''Error updating duplicate transactions'']))) \<and>
   (faults sv (calls w) (FetchUp u since 0) \<longrightarrow>
      fst (fetchUpTransactionsByAccount sv u since w) = Inl UpBankApiError) \<and>
   (fst (fetchUpTransactionsByAccount sv u since w) = Inl e \<longrightarrow>
      fst (syncAccounts sv since ((u, a) # rest) (rs, ti, td, tt) w) = Inl e) \<and>
   (\<forall>xs w1. fetchUpTransactionsByAccount sv u since w = (Inr xs, w1) \<and>
       fst (syncToYNAB sv a xs w1) = Inl e \<longrightarrow>
      fst (syncAccounts sv since ((u, a) # rest) (rs, ti, td, tt) w) = Inl e)"
proof -
  have 1: "upTransactions \<noteq> [] \<longrightarrow>
      (let batch = map (ynabTransaction a (clock sv)) upTransactions;
           res = acceptBatch batch \<lparr>ledgerAfter = ynab w, createdTransactions = [],
                                     duplicate_import_ids = []\<rparr>;
           dups = duplicate_import_ids res;
           sent = calls w @ [CreateTransactions batch];
           toUpdate = transactionsToUpdate (desiredClearedStatus dups batch)
                        (listing sv a (ledgerAfter res));
           out = syncToYNAB sv a upTransactions w
       in (if faults sv (calls w) (CreateTransactions batch) then fst out = Inl YnabApiError
           else fst out = Inr \<lparr>imported = int (length batch) - int (length dups),
                               duplicates = int (length dups), total = int (length batch)\<rparr>) \<and>
          (\<not> faults sv (calls w) (CreateTransactions batch) \<and> dups \<noteq> [] \<and>
           (faults sv sent (GetTransactionsByAccount a) \<or>
            toUpdate \<noteq> [] \<and>
            faults sv (sent @ [GetTransactionsByAccount a]) (UpdateTransactions toUpdate)) \<longrightarrow>
             ynab (snd out) = ledgerAfter res \<and>
             console (snd out) = console w @ concat (map statusWarning upTransactions)
                                  @ [Err ''Error updating duplicate transactions'']))"
    by (simp add: syncToYNAB_nonempty updateDuplicates_eq Let_def)
  from 1 fetchUp_first_fault [of sv w u since] syncAccounts_propagates [of sv u since w e a rest rs ti td tt]
  show ?thesis by blast
qed

theorem syncToYNAB_fixup_best_effort_witness:
  "[exampleTx ''tx-1'' ''SETTLED''] \<noteq> [] \<and>
   \<not> faults (exampleSetting [] (\<lambda>h c. c = GetTransactionsByAccount ''y1''))
       (calls (exampleWorld [exampleEntry ''A'' ''y1'' (Some ''UPBANK:tx-1'') Uncleared False]))
       (CreateTransactions [ynabTransaction ''y1'' ''2024-05-05T00:00:00.000Z'' (exampleTx ''tx-1'' ''SETTLED'')]) \<and>
   faults (exampleSetting [] (\<lambda>h c. c = GetTransactionsByAccount ''y1''))
       [CreateTransactions [ynabTransaction ''y1'' ''2024-05-05T00:00:00.000Z'' (exampleTx ''tx-1'' ''SETTLED'')]]
       (GetTransactionsByAccount ''y1'') \<and>
   fst (syncToYNAB (exampleSetting [] (\<lambda>h c. c = GetTransactionsByAccount ''y1'')) ''y1''
          [exampleTx ''tx-1'' ''SETTLED'']
          (exampleWorld [exampleEntry ''A'' ''y1'' (Some ''UPBANK:tx-1'') Uncleared False]))
     = Inr \<lparr>imported = 0, duplicates = 1, total = 1\<rparr> \<and>
   console (snd (syncToYNAB (exampleSetting [] (\<lambda>h c. c = GetTransactionsByAccount ''y1'')) ''y1''
          [exampleTx ''tx-1'' ''SETTLED'']
          (exampleWorld [exampleEntry ''A'' ''y1'' (Some ''UPBANK:tx-1'') Uncleared False])))
     = [Err ''Error updating duplicate transactions''] \<and>
   faults (exampleSetting [] (\<lambda>h c. c = FetchUp ''up1'' ''2024-02-03'' 0)) (calls (exampleWorld []))
       (FetchUp ''up1'' ''2024-02-03'' 0) \<and>
   fst (fetchUpTransactionsByAccount (exampleSetting [] (\<lambda>h c. c = FetchUp ''up1'' ''2024-02-03'' 0))
          ''up1'' ''2024-02-03'' (exampleWorld [])) = Inl UpBankApiError"
proof -
  let ?sv = "exampleSetting [] (\<lambda>h c. c = GetTransactionsByAccount ''y1'')"
  let ?sv2 = "exampleSetting [] (\<lambda>h c. c = FetchUp ''up1'' ''2024-02-03'' 0)"
  let ?w = "exampleWorld [exampleEntry ''A'' ''y1'' (Some ''UPBANK:tx-1'') Uncleared False]"
  let ?xs = "[exampleTx ''tx-1'' ''SETTLED'']"
  let ?b = "[ynabTransaction ''y1'' ''2024-05-05T00:00:00.000Z'' (exampleTx ''tx-1'' ''SETTLED'')]"
  have b: "map (ynabTransaction ''y1'' (clock ?sv)) ?xs = ?b"
    by (simp add: exampleSetting_def)
  have k: "s_import_id (ynabTransaction ''y1'' ''2024-05-05T00:00:00.000Z'' (exampleTx ''tx-1'' ''SETTLED''))
             = Some ''UPBANK:tx-1''"
    by (simp add: ynabTransaction_def Let_def importId_def exampleTx_def)
  have d: "duplicate_import_ids
             (acceptBatch ?b \<lparr>ledgerAfter = ynab ?w, createdTransactions = [], duplicate_import_ids = []\<rparr>)
           = [''UPBANK:tx-1'']"
    by (simp add: k keyInUse_def exampleEntry_def exampleWorld_def)
  have f1: "\<not> faults ?sv (calls ?w) (CreateTransactions ?b)"
    and f2: "faults ?sv (calls ?w @ [CreateTransactions ?b]) (GetTransactionsByAccount ''y1'')"
    and c: "calls ?w = []" "console ?w = []"
    by (simp_all add: example_defs)
  have f3: "faults ?sv2 (calls (exampleWorld [])) (FetchUp ''up1'' ''2024-02-03'' 0)"
    by (simp add: example_defs)
  have sw: "concat (map statusWarning ?xs) = []"
    by (simp add: statusWarning_def exampleTx_def attr_def)
  from syncToYNAB_fixup_best_effort
         [where sv = ?sv2 and w = "exampleWorld []" and u = "''up1''" and since = "''2024-02-03''"]
     f3
  have "fst (fetchUpTransactionsByAccount ?sv2 ''up1'' ''2024-02-03'' (exampleWorld [])) = Inl UpBankApiError"
    by blast
  moreover
  from syncToYNAB_fixup_best_effort
         [where upTransactions = ?xs and sv = ?sv and a = "''y1''" and w = ?w] f1 f2
  have "fst (syncToYNAB ?sv ''y1'' ?xs ?w) = Inr \<lparr>imported = 0, duplicates = 1, total = 1\<rparr> \<and>
        console (snd (syncToYNAB ?sv ''y1'' ?xs ?w)) = [Err ''Error updating duplicate transactions'']"
    unfolding Let_def b d c sw by simp
  ultimately show ?thesis using f1 f2 f3 c by simp
qed

section \<open>Reconciliation: auxiliary facts\<close>

section \<open>Steps that only read\<close>

lemma readsOnly_refl [simp]: "readsOnly w w"
  by (simp add: readsOnly_def)

lemma readsOnly_trans: "readsOnly w w1 \<Longrightarrow> readsOnly w1 w2 \<Longrightarrow> readsOnly w w2"
  by (auto simp add: readsOnly_def)

lemma readsOnly_read:
  "\<not> mutating c \<Longrightarrow> readsOnly w (w\<lparr>calls := calls w @ [c]\<rparr>)"
  by (auto simp add: readsOnly_def)

lemma readsOnly_logError: "readsOnly w w' \<Longrightarrow> readsOnly w (logError m w')"
  by (simp add: readsOnly_def)

lemma fetchPages_reads:
  "fetchPages sv u d n ps acc w = (r, w') \<Longrightarrow>
     readsOnly w w' \<and> (\<forall>xs. r = Inr xs \<longrightarrow> xs = acc @ concat ps)"
proof (induction ps arbitrary: n acc w)
  case Nil
  then show ?case by auto
next
  case (Cons p ps)
  let ?w1 = "w\<lparr>calls := calls w @ [FetchUp u d n]\<rparr>"
  have r1: "readsOnly w ?w1" by (rule readsOnly_read) simp
  show ?case
  proof (cases "faults sv (calls w) (FetchUp u d n)")
    case True
    with Cons.prems r1 show ?thesis
      by (auto simp add: request_def intro: readsOnly_logError)
  next
    case False
    with Cons.prems have "fetchPages sv u d (Suc n) ps (acc @ p) ?w1 = (r, w')"
      by (simp add: request_def)
    from Cons.IH [OF this] r1 show ?thesis
      by (auto intro: readsOnly_trans)
  qed
qed

lemma fetchUp_reads:
  "fetchUpTransactionsByAccount sv u d w = (r, w') \<Longrightarrow>
     readsOnly w w' \<and> (\<forall>xs. r = Inr xs \<longrightarrow> xs = concat (up sv u d))"
  unfolding fetchUpTransactionsByAccount_def
  by (drule fetchPages_reads) (auto split: list.splits)

lemma getTransactionsByAccount_reads:
  "getTransactionsByAccount sv a w = (r, w') \<Longrightarrow>
     readsOnly w w' \<and> (\<forall>txs. r = Inr txs \<longrightarrow> txs = listing sv a (ynab w))"
  by (auto simp add: getTransactionsByAccount_eq intro: readsOnly_read split: if_splits)

lemma getTransactions_reads:
  "getTransactions sv w = (r, w') \<Longrightarrow>
     readsOnly w w' \<and> (\<forall>txs. r = Inr txs \<longrightarrow> txs = ynab w)"
  by (auto simp add: getTransactions_eq intro: readsOnly_read split: if_splits)

section \<open>Step 1\<close>

lemma mapSet_map_fst: "set (map fst (mapSet k v m)) = insert k (set (map fst m))"
proof (induction m)
  case Nil
  show ?case by simp
next
  case (Cons x m)
  obtain a b where x: "x = (a, b)" by (cases x)
  from Cons show ?case
    by (simp add: x insert_commute del: set_map)
qed

lemma mapSet_keys: "fst ` set (mapSet k v m) = insert k (fst ` set m)"
  using mapSet_map_fst [of k v m] by (simp only: set_map)

lemma mapSet_entries: "set (mapSet k v m) \<subseteq> insert (k, v) (set m)"
  by (induction m) (auto split: if_splits)

lemma collectYnab_reads:
  "collectYnab sv as (byAccount, e) w = (r, w') \<Longrightarrow>
     readsOnly w w' \<and>
     (\<forall>byAccount' e'. r = Inr (byAccount', e') \<longrightarrow>
        fst ` set byAccount' = fst ` set byAccount \<union> set as \<and>
        ((\<forall>av\<in>set byAccount. snd av = upBankTransactions (listing sv (fst av) (ynab w))) \<longrightarrow>
         (\<forall>av\<in>set byAccount'. snd av = upBankTransactions (listing sv (fst av) (ynab w)))))"
proof (induction as arbitrary: byAccount e w)
  case Nil
  then show ?case by auto
next
  case (Cons a as)
  obtain r1 w1 where g: "getTransactionsByAccount sv a w = (r1, w1)"
    by (cases "getTransactionsByAccount sv a w")
  note g1 = getTransactionsByAccount_reads [OF g]
  show ?case
  proof (cases r1)
    case (Inl err)
    with Cons.prems g g1 show ?thesis by auto
  next
    case (Inr txs)
    with g1 have txs: "txs = listing sv a (ynab w)" and y: "ynab w1 = ynab w"
      by (auto simp add: readsOnly_def)
    let ?by = "mapSet a (upBankTransactions txs) byAccount"
    from Cons.prems g Inr
    have c: "collectYnab sv as (?by, foldl earlier e txs) w1 = (r, w')" by simp
    note ih = Cons.IH [OF c]
    have inv: "\<forall>av\<in>set ?by. snd av = upBankTransactions (listing sv (fst av) (ynab w))"
      if "\<forall>av\<in>set byAccount. snd av = upBankTransactions (listing sv (fst av) (ynab w))"
      using that mapSet_entries [of a "upBankTransactions txs" byAccount] txs by auto
    from ih g1 inv show ?thesis
      by (auto simp add: y mapSet_keys intro: readsOnly_trans)
  qed
qed

section \<open>Step 3\<close>

lemma fetchAll_reads:
  "fetchAll sv since rs m (ids, q) w = (r, w') \<Longrightarrow>
     readsOnly w w' \<and>
     (\<forall>ids' q'. r = Inr (ids', q') \<longrightarrow>
        ids' = ids @ concat (map (\<lambda>ua. map (\<lambda>tx. take 29 (txid tx)) (concat (up sv (fst ua) since))) m) \<and>
        q' = q @ concat (map (\<lambda>ua. map (\<lambda>tx. (tx, snd ua))
                                 (filter (\<lambda>tx. importId (txid tx) \<in> set rs)
                                    (concat (up sv (fst ua) since)))) m))"
proof (induction m arbitrary: ids q w)
  case Nil
  then show ?case by auto
next
  case (Cons ua m)
  obtain u a where ua: "ua = (u, a)" by (cases ua)
  obtain r1 w1 where f: "fetchUpTransactionsByAccount sv u since w = (r1, w1)"
    by (cases "fetchUpTransactionsByAccount sv u since w")
  note f1 = fetchUp_reads [OF f]
  show ?case
  proof (cases r1)
    case (Inl err)
    with Cons.prems f f1 ua show ?thesis by auto
  next
    case (Inr xs)
    with f1 have xs: "xs = concat (up sv u since)" by simp
    from Cons.prems f Inr ua
    have "fetchAll sv since rs m
            (ids @ map (\<lambda>tx. take 29 (txid tx)) xs,
             q @ map (\<lambda>tx. (tx, a)) (filter (\<lambda>tx. importId (txid tx) \<in> set rs) xs)) w1 = (r, w')"
      by simp
    from Cons.IH [OF this] f1 show ?thesis
      by (auto simp add: xs ua intro: readsOnly_trans)
  qed
qed

lemma prefixed_key:
  "startsWithUPBANK (t_import_id x) \<and> orElse (t_import_id x) [] = k
     \<longleftrightarrow> t_import_id x = Some k \<and> take 7 k = ''UPBANK:''"
  by (cases "t_import_id x") (auto simp add: startsWithUPBANK_def)

lemma restorableImportIds_mem: "k \<in> set (restorableImportIds l) \<longleftrightarrow> restorableKey l k"
proof -
  have d: "k \<in> set (map (\<lambda>tx. orElse (t_import_id tx) [])
                     (filter P (filter (\<lambda>tx. startsWithUPBANK (t_import_id tx)) l)))
         \<longleftrightarrow> (\<exists>x\<in>set l. P x \<and> t_import_id x = Some k \<and> take 7 k = ''UPBANK:'')" for P
  proof -
    have "k \<in> set (map (\<lambda>tx. orElse (t_import_id tx) [])
                     (filter P (filter (\<lambda>tx. startsWithUPBANK (t_import_id tx)) l)))
         \<longleftrightarrow> (\<exists>x\<in>set l. P x \<and> (startsWithUPBANK (t_import_id x) \<and> orElse (t_import_id x) [] = k))"
      by auto
    then show ?thesis by (simp only: prefixed_key)
  qed
  have "k \<in> set (restorableImportIds l) \<longleftrightarrow>
          (\<exists>x\<in>set l. t_deleted x \<and> t_import_id x = Some k \<and> take 7 k = ''UPBANK:'') \<and>
          \<not> (\<exists>x\<in>set l. \<not> t_deleted x \<and> t_import_id x = Some k \<and> take 7 k = ''UPBANK:'')"
    unfolding restorableImportIds_def Let_def set_filter mem_Collect_eq d ..
  also have "\<dots> \<longleftrightarrow> restorableKey l k"
    unfolding restorableKey_def by blast
  finally show ?thesis .
qed

lemma removeFirst_prefix:
  "take (length pat) s = pat \<Longrightarrow> s \<noteq> [] \<Longrightarrow> removeFirst pat s = drop (length pat) s"
  by (cases s) simp_all

lemma removeFirst_UPBANK: "take 7 s = ''UPBANK:'' \<Longrightarrow> removeFirst ''UPBANK:'' s = drop 7 s"
proof -
  assume a: "take 7 s = ''UPBANK:''"
  then have "s \<noteq> []" by auto
  moreover have l: "length ''UPBANK:'' = 7" by simp
  ultimately show ?thesis using removeFirst_prefix [of "''UPBANK:''" s, unfolded l] a by blast
qed

lemma upId_of_entry:
  "startsWithUPBANK (t_import_id t) \<Longrightarrow>
     removeFirst ''UPBANK:'' (b_import_id (upBankTransaction t)) = drop 7 (orElse (t_import_id t) [])"
  by (cases "t_import_id t")
     (auto simp add: startsWithUPBANK_def upBankTransaction_def removeFirst_UPBANK)

lemma upBankTransactions_mem:
  "b \<in> set (upBankTransactions (listing sv a l)) \<longleftrightarrow>
     (\<exists>t\<in>set l. t_account_id t = a \<and> \<not> t_deleted t \<and> startsWithUPBANK (t_import_id t) \<and>
        b = upBankTransaction t)"
  by (auto simp add: upBankTransactions_def listing_def)

lemma sourceIds_concat:
  "set (concat (map (\<lambda>ua. map (\<lambda>tx. take 29 (txid tx)) (concat (up sv (fst ua) since))) m))
     = sourceIds sv m since"
  by (auto simp add: sourceIds_def)

lemma resyncPlan_reads:
  "resyncPlan sv m w = (r, w') \<Longrightarrow>
     readsOnly w w' \<and>
     (\<forall>p. r = Inr (Some p) \<longrightarrow>
        p_earliestDate p \<noteq> [] \<and>
        p_transactionsToRestore p =
          concat (map (\<lambda>ua. map (\<lambda>tx. (tx, snd ua))
                         (filter (\<lambda>tx. importId (txid tx) \<in> set (restorableImportIds (ynab w)))
                            (concat (up sv (fst ua) (p_earliestDate p))))) m) \<and>
        (\<exists>byAccount.
           fst ` set byAccount = snd ` set m \<and>
           (\<forall>av\<in>set byAccount. snd av = upBankTransactions (listing sv (fst av) (ynab w))) \<and>
           p_orphanedTransactions p =
             findOrphans
               (concat (map (\<lambda>ua. map (\<lambda>tx. take 29 (txid tx))
                                    (concat (up sv (fst ua) (p_earliestDate p)))) m))
               byAccount))"
proof -
  assume a: "resyncPlan sv m w = (r, w')"
  obtain r1 w1 where c: "collectYnab sv (map snd m) ([], None) w = (r1, w1)"
    by (cases "collectYnab sv (map snd m) ([], None) w")
  note c1 = collectYnab_reads [OF c]
  show ?thesis
  proof (cases r1)
    case (Inl err)
    with a c c1 show ?thesis by (auto simp add: resyncPlan_def)
  next
    case (Inr be)
    obtain byAccount e where be: "be = (byAccount, e)" by (cases be)
    from c1 Inr be have ro1: "readsOnly w w1"
      and keys: "fst ` set byAccount = snd ` set m"
      and vals: "\<forall>av\<in>set byAccount. snd av = upBankTransactions (listing sv (fst av) (ynab w))"
      by auto
    show ?thesis
    proof (cases "orElse e [] = []")
      case True
      with a c Inr be ro1 show ?thesis by (auto simp add: resyncPlan_def)
    next
      case ne: False
      obtain r2 w2 where g: "getTransactions sv w1 = (r2, w2)"
        by (cases "getTransactions sv w1")
      note g1 = getTransactions_reads [OF g]
      from g1 ro1 have ro2: "readsOnly w w2" by (auto intro: readsOnly_trans)
      show ?thesis
      proof (cases r2)
        case (Inl err)
        with a c Inr be ne g ro2 show ?thesis by (auto simp add: resyncPlan_def)
      next
        case all: (Inr allTransactions)
        with g1 ro1 have allT: "allTransactions = ynab w" by (simp add: readsOnly_def)
        obtain r3 w3 where f: "fetchAll sv (orElse e []) (restorableImportIds allTransactions) m ([], []) w2 = (r3, w3)"
          by (cases "fetchAll sv (orElse e []) (restorableImportIds allTransactions) m ([], []) w2")
        note f1 = fetchAll_reads [OF f]
        from f1 ro2 have ro3: "readsOnly w w3" by (auto intro: readsOnly_trans)
        show ?thesis
        proof (cases r3)
          case (Inl err)
          with a c Inr be ne g all f ro3 show ?thesis by (auto simp add: resyncPlan_def)
        next
          case iq: (Inr idsq)
          obtain ids q where idsq: "idsq = (ids, q)" by (cases idsq)
          from a c Inr be ne g all f iq idsq
          have r: "r = Inr (Some \<lparr> p_earliestDate = orElse e [], p_transactionsToRestore = q,
                                     p_orphanedTransactions = findOrphans ids byAccount \<rparr>)"
            and weq: "w' = w3"
            by (simp_all add: resyncPlan_def)
          from f1 iq idsq have
            ids: "ids = concat (map (\<lambda>ua. map (\<lambda>tx. take 29 (txid tx)) (concat (up sv (fst ua) (orElse e [])))) m)"
            and q: "q = concat (map (\<lambda>ua. map (\<lambda>tx. (tx, snd ua))
                                 (filter (\<lambda>tx. importId (txid tx) \<in> set (restorableImportIds allTransactions))
                                    (concat (up sv (fst ua) (orElse e []))))) m)"
            by simp_all
          show ?thesis
            unfolding r weq
            using ro3 ne keys vals ids q allT
            by (auto intro!: exI [of _ byAccount])
        qed
      qed
    qed
  qed
qed

lemma plan_orphans:
  assumes "resyncPlan sv m w = (Inr (Some p), w')"
  shows "set (p_orphanedTransactions p) =
           {orphanOf (upBankTransaction t) | t.
              t \<in> set (ynab w) \<and> t_account_id t \<in> snd ` set m \<and> \<not> t_deleted t \<and>
              startsWithUPBANK (t_import_id t) \<and>
              drop 7 (orElse (t_import_id t) []) \<notin> sourceIds sv m (p_earliestDate p)}"
proof -
  from resyncPlan_reads [OF assms] obtain byAccount where
    keys: "fst ` set byAccount = snd ` set m"
    and vals: "\<forall>av\<in>set byAccount. snd av = upBankTransactions (listing sv (fst av) (ynab w))"
    and o: "p_orphanedTransactions p =
             findOrphans
               (concat (map (\<lambda>ua. map (\<lambda>tx. take 29 (txid tx))
                                    (concat (up sv (fst ua) (p_earliestDate p)))) m))
               byAccount"
    by blast
  have coll: "b \<in> set (concat (map snd byAccount)) \<longleftrightarrow>
          (\<exists>t\<in>set (ynab w). t_account_id t \<in> snd ` set m \<and> \<not> t_deleted t \<and>
              startsWithUPBANK (t_import_id t) \<and> b = upBankTransaction t)" for b
  proof
    assume "b \<in> set (concat (map snd byAccount))"
    then obtain av where av: "av \<in> set byAccount" "b \<in> set (snd av)" by auto
    with vals have "b \<in> set (upBankTransactions (listing sv (fst av) (ynab w)))" by auto
    then obtain t where t: "t \<in> set (ynab w)" "t_account_id t = fst av" "\<not> t_deleted t"
      "startsWithUPBANK (t_import_id t)" "b = upBankTransaction t"
      unfolding upBankTransactions_mem by blast
    moreover from av(1) keys have "fst av \<in> snd ` set m" by blast
    ultimately show "\<exists>t\<in>set (ynab w). t_account_id t \<in> snd ` set m \<and> \<not> t_deleted t \<and>
              startsWithUPBANK (t_import_id t) \<and> b = upBankTransaction t"
      by (intro bexI [of _ t]) simp_all
  next
    assume "\<exists>t\<in>set (ynab w). t_account_id t \<in> snd ` set m \<and> \<not> t_deleted t \<and>
              startsWithUPBANK (t_import_id t) \<and> b = upBankTransaction t"
    then obtain t where t: "t \<in> set (ynab w)" "t_account_id t \<in> snd ` set m" "\<not> t_deleted t"
      "startsWithUPBANK (t_import_id t)" "b = upBankTransaction t" by blast
    from t(2) keys obtain av where av: "av \<in> set byAccount" "fst av = t_account_id t" by (metis imageE)
    with vals have "snd av = upBankTransactions (listing sv (t_account_id t) (ynab w))" by auto
    moreover have "b \<in> set (upBankTransactions (listing sv (t_account_id t) (ynab w)))"
      unfolding upBankTransactions_mem using t by blast
    ultimately show "b \<in> set (concat (map snd byAccount))" using av(1)
      by (auto intro!: bexI [of _ av])
  qed
  let ?ids = "concat (map (\<lambda>ua. map (\<lambda>tx. take 29 (txid tx))
                                    (concat (up sv (fst ua) (p_earliestDate p)))) m)"
  show ?thesis
  proof (intro set_eqI iffI)
    fix x assume "x \<in> set (p_orphanedTransactions p)"
    then obtain b where b: "b \<in> set (concat (map snd byAccount))"
      "removeFirst ''UPBANK:'' (b_import_id b) \<notin> set ?ids" "x = orphanOf b"
      unfolding o findOrphans_def by auto
    from b(1) coll obtain t where t: "t \<in> set (ynab w)" "t_account_id t \<in> snd ` set m"
      "\<not> t_deleted t" "startsWithUPBANK (t_import_id t)" "b = upBankTransaction t"
      by blast
    from b(2) t(4,5) have "drop 7 (orElse (t_import_id t) []) \<notin> sourceIds sv m (p_earliestDate p)"
      by (simp only: upId_of_entry sourceIds_concat) simp
    with t b(3) show "x \<in> {orphanOf (upBankTransaction t) | t.
              t \<in> set (ynab w) \<and> t_account_id t \<in> snd ` set m \<and> \<not> t_deleted t \<and>
              startsWithUPBANK (t_import_id t) \<and>
              drop 7 (orElse (t_import_id t) []) \<notin> sourceIds sv m (p_earliestDate p)}"
      by blast
  next
    fix x assume "x \<in> {orphanOf (upBankTransaction t) | t.
              t \<in> set (ynab w) \<and> t_account_id t \<in> snd ` set m \<and> \<not> t_deleted t \<and>
              startsWithUPBANK (t_import_id t) \<and>
              drop 7 (orElse (t_import_id t) []) \<notin> sourceIds sv m (p_earliestDate p)}"
    then obtain t where t: "t \<in> set (ynab w)" "t_account_id t \<in> snd ` set m"
      "\<not> t_deleted t" "startsWithUPBANK (t_import_id t)"
      "drop 7 (orElse (t_import_id t) []) \<notin> sourceIds sv m (p_earliestDate p)"
      "x = orphanOf (upBankTransaction t)"
      by blast
    from t(1-4) coll have c: "upBankTransaction t \<in> set (concat (map snd byAccount))" by blast
    from t(4,5) have "removeFirst ''UPBANK:'' (b_import_id (upBankTransaction t)) \<notin> set ?ids"
      by (simp only: upId_of_entry sourceIds_concat) simp
    with c t(6) show "x \<in> set (p_orphanedTransactions p)"
      unfolding o findOrphans_def by auto
  qed
qed

section \<open>Soft-deleted identifiers stay soft-deleted\<close>

lemma ids_map: "(\<And>t. t_id (f t) = t_id t) \<Longrightarrow> t_id ` set (map f l) = t_id ` set l"
  by (simp add: image_image)

lemma gone_map:
  assumes "\<And>t. t_id (f t) = t_id t" and "\<And>t. t_deleted t \<Longrightarrow> t_deleted (f t)" and "gone i l"
  shows "gone i (map f l)"
proof -
  have "i \<in> t_id ` set (map f l)"
    using assms(3) ids_map [of f l, OF assms(1)] by (simp only: gone_def)
  moreover have "t_deleted t" if "t \<in> set (map f l)" "t_id t = i" for t
  proof -
    from that(1) obtain u where u: "u \<in> set l" "t = f u" by auto
    with that(2) assms(1) have "t_id u = i" by simp
    with assms(3) u(1) have "t_deleted u" by (simp add: gone_def)
    with u(2) assms(2) show ?thesis by simp
  qed
  ultimately show ?thesis by (simp add: gone_def)
qed

lemma gone_softDelete: "gone i l \<Longrightarrow> gone i (softDelete j l)"
  unfolding softDelete_def by (rule gone_map) simp_all

lemma softDelete_ids: "t_id ` set (softDelete j l) = t_id ` set l"
  unfolding softDelete_def by (rule ids_map) simp

lemma softDelete_gone: "i \<in> t_id ` set l \<Longrightarrow> gone i (softDelete i l)"
proof -
  assume "i \<in> t_id ` set l"
  then have "i \<in> t_id ` set (softDelete i l)" by (simp only: softDelete_ids)
  moreover have "t_deleted t" if "t \<in> set (softDelete i l)" "t_id t = i" for t
  proof -
    from that(1) obtain u where u: "u \<in> set l"
      "t = (if t_id u = i then u\<lparr>t_deleted := True\<rparr> else u)"
      unfolding softDelete_def by auto
    show ?thesis
    proof (cases "t_id u = i")
      case True
      with u(2) show ?thesis by simp
    next
      case False
      with u(2) that(2) show ?thesis by simp
    qed
  qed
  ultimately show ?thesis by (simp add: gone_def)
qed

lemma gone_setCleared: "gone i l \<Longrightarrow> gone i (setCleared e l)"
  unfolding setCleared_def by (rule gone_map) simp_all

lemma gone_fold_setCleared: "gone i l \<Longrightarrow> gone i (fold setCleared es l)"
  by (induction es arbitrary: l) (simp_all add: gone_setCleared)

lemma gone_append_new: "gone i l \<Longrightarrow> gone i (l @ [newTransaction l s])"
proof -
  assume g: "gone i l"
  then have m: "i \<in> t_id ` set l" and d: "\<forall>t\<in>set l. t_id t = i \<longrightarrow> t_deleted t"
    by (simp_all add: gone_def)
  from m newId_fresh [of l] have "newId l \<noteq> i" by blast
  then have n: "t_id (newTransaction l s) \<noteq> i" by (simp add: newTransaction_def)
  from m have "i \<in> t_id ` set (l @ [newTransaction l s])" by simp
  moreover from d n have "\<forall>t\<in>set (l @ [newTransaction l s]). t_id t = i \<longrightarrow> t_deleted t" by simp
  ultimately show ?thesis by (simp only: gone_def)
qed

lemma gone_acceptBatch: "gone i (ledgerAfter r) \<Longrightarrow> gone i (ledgerAfter (acceptBatch ss r))"
  by (induction ss arbitrary: r) (simp_all add: gone_append_new)


lemma createTransactions_gone:
  "createTransactions sv b w = (r, w') \<Longrightarrow> gone i (ynab w) \<Longrightarrow> gone i (ynab w')"
  using gone_acceptBatch [of i "\<lparr>ledgerAfter = ynab w, createdTransactions = [], duplicate_import_ids = []\<rparr>" b]
  by (auto simp add: createTransactions_eq split: if_splits)

lemma updateDuplicates_gone:
  "gone i (ynab w) \<Longrightarrow> gone i (ynab (updateDuplicates sv a dups batch w))"
  by (simp add: updateDuplicates_eq Let_def gone_fold_setCleared)

lemma syncToYNAB_gone:
  "syncToYNAB sv a xs w = (r, w') \<Longrightarrow> gone i (ynab w) \<Longrightarrow> gone i (ynab w')"
proof (cases "xs = []")
  case True
  assume "syncToYNAB sv a xs w = (r, w')" "gone i (ynab w)"
  with True show ?thesis by (auto simp add: syncToYNAB_def)
next
  case False
  assume a: "syncToYNAB sv a xs w = (r, w')" and g: "gone i (ynab w)"
  let ?batch = "map (ynabTransaction a (clock sv)) xs"
  let ?res = "acceptBatch ?batch \<lparr>ledgerAfter = ynab w, createdTransactions = [],
                                    duplicate_import_ids = []\<rparr>"
  from g have g1: "gone i (ledgerAfter ?res)"
    using gone_acceptBatch [of i _ ?batch] by simp
  from a g g1 show ?thesis
    unfolding syncToYNAB_nonempty [OF False] Let_def
    by (auto simp add: updateDuplicates_gone split: if_splits)
qed

lemma syncAccounts_gone:
  "syncAccounts sv since m acc w = (r, w') \<Longrightarrow> gone i (ynab w) \<Longrightarrow> gone i (ynab w')"
proof (induction m arbitrary: acc w)
  case Nil
  then show ?case by auto
next
  case (Cons ua m)
  obtain u a where ua: "ua = (u, a)" by (cases ua)
  obtain rs ti td tt where acc: "acc = (rs, ti, td, tt)" by (cases acc)
  obtain r1 w1 where f: "fetchUpTransactionsByAccount sv u since w = (r1, w1)"
    by (cases "fetchUpTransactionsByAccount sv u since w")
  from fetchUp_reads [OF f] Cons.prems(2) have g1: "gone i (ynab w1)"
    by (simp add: readsOnly_def)
  show ?case
  proof (cases r1)
    case (Inl e)
    with Cons.prems(1) f ua acc g1 show ?thesis by auto
  next
    case (Inr xs)
    obtain r2 w2 where s: "syncToYNAB sv a xs w1 = (r2, w2)"
      by (cases "syncToYNAB sv a xs w1")
    from syncToYNAB_gone [OF s g1] have g2: "gone i (ynab w2)" .
    show ?thesis
    proof (cases r2)
      case (Inl e)
      with Cons.prems(1) f ua acc Inr s g2 show ?thesis by auto
    next
      case res: (Inr result)
      with Cons.prems(1) f ua acc Inr s
      have "syncAccounts sv since m
              (rs @ [\<lparr> a_upAccountId = u, a_ynabAccountId = a,
                        a_imported = imported result, a_duplicates = duplicates result \<rparr>],
               ti + imported result, td + duplicates result, tt + total result) w2 = (r, w')"
        by simp
      from Cons.IH [OF this g2] show ?thesis .
    qed
  qed
qed

lemma restoreAccounts_gone:
  "restoreAccounts sv gs acc w = (r, w') \<Longrightarrow> gone i (ynab w) \<Longrightarrow> gone i (ynab w')"
proof (induction gs arbitrary: acc w)
  case Nil
  then show ?case by auto
next
  case (Cons g gs)
  obtain a xs where g: "g = (a, xs)" by (cases g)
  obtain n rs where acc: "acc = (n, rs)" by (cases acc)
  obtain r1 w1 where c: "createTransactions sv (map (restoredTx a (clock sv)) xs) w = (r1, w1)"
    by (cases "createTransactions sv (map (restoredTx a (clock sv)) xs) w")
  from createTransactions_gone [OF c Cons.prems(2)] have g1: "gone i (ynab w1)" .
  show ?case
  proof (cases r1)
    case (Inl e)
    with Cons.prems(1) g acc c
    have "restoreAccounts sv gs (n, rs) (logError ''Failed to restore transactions'' w1) = (r, w')"
      by (simp add: Let_def)
    from Cons.IH [OF this] g1 show ?thesis by simp
  next
    case (Inr res)
    with Cons.prems(1) g acc c
    have "restoreAccounts sv gs (n + length (map (restoredTx a (clock sv)) xs), rs @ map restoredOf xs) w1
            = (r, w')"
      by (simp add: Let_def)
    from Cons.IH [OF this g1] show ?thesis .
  qed
qed

lemma deleteOrphans_effect:
  "deleteOrphans sv os n w = (n', w') \<Longrightarrow>
     calls w' = calls w @ map (\<lambda>orphan. DeleteTransaction (ynabId orphan)) os \<and>
     n \<le> n' \<and> n' \<le> n + length os \<and>
     console w' = console w @ replicate (n + length os - n') (Err ''Failed to delete orphan'') \<and>
     (\<forall>i. gone i (ynab w) \<longrightarrow> gone i (ynab w')) \<and>
     ((\<forall>h i. \<not> faults sv h (DeleteTransaction i)) \<longrightarrow>
        n' = n + length os \<and>
        (\<forall>orphan\<in>set os. ynabId orphan \<in> t_id ` set (ynab w) \<longrightarrow> gone (ynabId orphan) (ynab w')))"
proof (induction os arbitrary: n w)
  case Nil
  then show ?case by auto
next
  case (Cons orphan os)
  let ?c = "DeleteTransaction (ynabId orphan)"
  let ?w0 = "w\<lparr>calls := calls w @ [?c]\<rparr>"
  show ?case
  proof (cases "faults sv (calls w) ?c")
    case True
    with Cons.prems
    have d: "deleteOrphans sv os n (logError ''Failed to delete orphan'' ?w0) = (n', w')"
      by (simp add: deleteTransaction_eq)
    from Cons.IH [OF d] have le: "n' \<le> n + length os" by simp
    then have "replicate (n + length (orphan # os) - n') (Err ''Failed to delete orphan'')
                 = Err ''Failed to delete orphan'' # replicate (n + length os - n') (Err ''Failed to delete orphan'')"
      by (simp add: Suc_diff_le)
    with Cons.IH [OF d] True show ?thesis by auto
  next
    case False
    let ?w1 = "?w0\<lparr>ynab := softDelete (ynabId orphan) (ynab w)\<rparr>"
    from False Cons.prems
    have d: "deleteOrphans sv os (Suc n) ?w1 = (n', w')"
      by (simp add: deleteTransaction_eq)
    note ih = Cons.IH [OF d]
    have g: "gone i (ynab ?w1)" if "gone i (ynab w)" for i
      using that by (simp add: gone_softDelete)
    have here: "gone (ynabId orphan) (ynab ?w1)" if "ynabId orphan \<in> t_id ` set (ynab w)"
      using that by (simp add: softDelete_gone)
    have ids: "t_id ` set (ynab ?w1) = t_id ` set (ynab w)"
      by (simp add: softDelete_ids)
    from ih have keep: "\<forall>i. gone i (ynab ?w1) \<longrightarrow> gone i (ynab w')" by blast
    have last: "n' = n + length (orphan # os) \<and>
        (\<forall>x\<in>set (orphan # os). ynabId x \<in> t_id ` set (ynab w) \<longrightarrow> gone (ynabId x) (ynab w'))"
      if nf: "\<forall>h i. \<not> faults sv h (DeleteTransaction i)"
    proof -
      from ih nf have n: "n' = Suc n + length os"
        and rest: "\<forall>x\<in>set os. ynabId x \<in> t_id ` set (ynab ?w1) \<longrightarrow> gone (ynabId x) (ynab w')"
        by blast+
      have "gone (ynabId x) (ynab w')" if x: "x \<in> set (orphan # os)" "ynabId x \<in> t_id ` set (ynab w)" for x
      proof (cases "x = orphan")
        case True
        with x(2) here keep show ?thesis by blast
      next
        case False
        with x(1) have "x \<in> set os" by simp
        with rest x(2) ids show ?thesis by blast
      qed
      with n show ?thesis by simp
    qed
    from ih have "calls w' = calls w @ map (\<lambda>orphan. DeleteTransaction (ynabId orphan)) (orphan # os)"
      and "n \<le> n'" and "n' \<le> n + length (orphan # os)"
      and "console w' = console w @ replicate (n + length (orphan # os) - n') (Err ''Failed to delete orphan'')"
      by simp_all
    moreover from keep g have "\<forall>i. gone i (ynab w) \<longrightarrow> gone i (ynab w')" by blast
    ultimately show ?thesis using last by blast
  qed
qed

section \<open>Restoration\<close>

lemma pushTo_flat:
  "(\<Union>g\<in>set (pushTo k v m). (\<lambda>tx. (tx, fst g)) ` set (snd g))
     = insert (v, k) (\<Union>g\<in>set m. (\<lambda>tx. (tx, fst g)) ` set (snd g))"
proof (induction m)
  case Nil
  show ?case by simp
next
  case (Cons g m)
  obtain a xs where g: "g = (a, xs)" by (cases g)
  show ?case
  proof (cases "a = k")
    case True
    then show ?thesis by (auto simp add: g)
  next
    case False
    with Cons show ?thesis by (auto simp add: g)
  qed
qed

lemma groupByAccount_flat:
  "(\<Union>g\<in>set (groupByAccount q m). (\<lambda>tx. (tx, fst g)) ` set (snd g))
     = set q \<union> (\<Union>g\<in>set m. (\<lambda>tx. (tx, fst g)) ` set (snd g))"
proof (induction q arbitrary: m)
  case Nil
  show ?case by simp
next
  case (Cons x q)
  obtain tx a where x: "x = (tx, a)" by (cases x)
  show ?case
    unfolding x groupByAccount.simps Cons.IH pushTo_flat by auto
qed

lemma pushTo_size:
  "sum_list (map (\<lambda>g. length (snd g)) (pushTo k v m)) = Suc (sum_list (map (\<lambda>g. length (snd g)) m))"
  by (induction m) auto

lemma groupByAccount_size:
  "sum_list (map (\<lambda>g. length (snd g)) (groupByAccount q m))
     = length q + sum_list (map (\<lambda>g. length (snd g)) m)"
proof (induction q arbitrary: m)
  case Nil
  show ?case by simp
next
  case (Cons x q)
  obtain tx a where x: "x = (tx, a)" by (cases x)
  show ?case
    unfolding x groupByAccount.simps Cons.IH pushTo_size by simp
qed

lemma restoreAccounts_effect:
  "restoreAccounts sv gs (n, rs) w = ((n', rs'), w') \<Longrightarrow>
     calls w' = calls w @ map (\<lambda>g. CreateTransactions (map (restoredTx (fst g) (clock sv)) (snd g))) gs \<and>
     n' + length rs = n + length rs' \<and>
     n' \<le> n + sum_list (map (\<lambda>g. length (snd g)) gs) \<and>
     set rs' \<subseteq> set rs \<union> restoredOf ` (\<Union>g\<in>set gs. set (snd g)) \<and>
     ((\<forall>h b. \<not> faults sv h (CreateTransactions b)) \<longrightarrow>
        n' = n + sum_list (map (\<lambda>g. length (snd g)) gs))"
proof (induction gs arbitrary: n rs w)
  case Nil
  then show ?case by auto
next
  case (Cons g gs)
  obtain a xs where g: "g = (a, xs)" by (cases g)
  let ?b = "map (restoredTx a (clock sv)) xs"
  let ?w0 = "w\<lparr>calls := calls w @ [CreateTransactions ?b]\<rparr>"
  show ?case
  proof (cases "faults sv (calls w) (CreateTransactions ?b)")
    case True
    with Cons.prems g
    have "restoreAccounts sv gs (n, rs) (logError ''Failed to restore transactions'' ?w0) = ((n', rs'), w')"
      by (simp add: Let_def createTransactions_eq)
    from Cons.IH [OF this] True show ?thesis
      by (auto simp add: g image_Un)
  next
    case False
    let ?res = "acceptBatch ?b \<lparr>ledgerAfter = ynab w, createdTransactions = [],
                                 duplicate_import_ids = []\<rparr>"
    from False Cons.prems g
    have "restoreAccounts sv gs (n + length xs, rs @ map restoredOf xs)
            (?w0\<lparr>ynab := ledgerAfter ?res\<rparr>) = ((n', rs'), w')"
      by (simp add: Let_def createTransactions_eq)
    from Cons.IH [OF this] show ?thesis
      by (auto simp add: g image_Un)
  qed
qed

section \<open>The creates of the incremental sync\<close>

lemma syncToYNAB_calls:
  "syncToYNAB sv a xs w = (r, w') \<Longrightarrow>
     set (calls w) \<subseteq> set (calls w') \<and>
     (\<forall>b. CreateTransactions b \<in> set (calls w') \<longrightarrow>
        CreateTransactions b \<in> set (calls w) \<or>
        b \<noteq> [] \<and> (\<forall>x\<in>set b. \<exists>tx::TransactionResource. s_import_id x = Some (importId (txid tx))))"
proof (cases "xs = []")
  case True
  assume "syncToYNAB sv a xs w = (r, w')"
  with True show ?thesis by (auto simp add: syncToYNAB_def)
next
  case False
  assume a: "syncToYNAB sv a xs w = (r, w')"
  let ?batch = "map (ynabTransaction a (clock sv)) xs"
  have "\<exists>tx::TransactionResource. s_import_id x = Some (importId (txid tx))" if "x \<in> set ?batch" for x
  proof -
    from that obtain tx where "x = ynabTransaction a (clock sv) tx" by auto
    then have "s_import_id x = Some (importId (txid tx))"
      by (simp add: ynabTransaction_def Let_def)
    then show ?thesis ..
  qed
  with False
  have k: "?batch \<noteq> [] \<and> (\<forall>x\<in>set ?batch. \<exists>tx::TransactionResource. s_import_id x = Some (importId (txid tx)))"
    by simp
  from a have "\<exists>cs. calls w' = calls w @ CreateTransactions ?batch # cs \<and>
                 (\<forall>c\<in>set cs. \<forall>b. c \<noteq> CreateTransactions b)"
    unfolding syncToYNAB_nonempty [OF False] Let_def updateDuplicates_eq
    by (auto split: if_splits)
  then obtain cs where cs: "calls w' = calls w @ CreateTransactions ?batch # cs"
    "\<forall>c\<in>set cs. \<forall>b. c \<noteq> CreateTransactions b" by blast
  have c1: "CreateTransactions b \<in> set (calls w) \<or> b = ?batch"
    if "CreateTransactions b \<in> set (calls w')" for b
    using that cs by auto
  from cs(1) have sub: "set (calls w) \<subseteq> set (calls w')" by auto
  show ?thesis
  proof (intro conjI allI impI)
    show "set (calls w) \<subseteq> set (calls w')" by (rule sub)
  next
    fix b assume "CreateTransactions b \<in> set (calls w')"
    from c1 [OF this] k
    show "CreateTransactions b \<in> set (calls w) \<or>
        b \<noteq> [] \<and> (\<forall>x\<in>set b. \<exists>tx::TransactionResource. s_import_id x = Some (importId (txid tx)))"
      by blast
  qed
qed

lemma syncAccounts_calls:
  "syncAccounts sv since m acc w = (r, w') \<Longrightarrow>
     set (calls w) \<subseteq> set (calls w') \<and>
     (\<forall>b. CreateTransactions b \<in> set (calls w') \<longrightarrow>
        CreateTransactions b \<in> set (calls w) \<or>
        b \<noteq> [] \<and> (\<forall>x\<in>set b. \<exists>tx::TransactionResource. s_import_id x = Some (importId (txid tx))))"
proof (induction m arbitrary: acc w)
  case Nil
  then show ?case by auto
next
  case (Cons ua m)
  obtain u a where ua: "ua = (u, a)" by (cases ua)
  obtain rs ti td tt where acc: "acc = (rs, ti, td, tt)" by (cases acc)
  obtain r1 w1 where f: "fetchUpTransactionsByAccount sv u since w = (r1, w1)"
    by (cases "fetchUpTransactionsByAccount sv u since w")
  from fetchUp_reads [OF f] have ro: "readsOnly w w1" by simp
  then have sub1: "set (calls w) \<subseteq> set (calls w1)" by (simp add: readsOnly_def)
  have cr1: "CreateTransactions b \<in> set (calls w)" if "CreateTransactions b \<in> set (calls w1)" for b
  proof -
    from that have "CreateTransactions b \<in> set (filter mutating (calls w1))" by simp
    with ro have "CreateTransactions b \<in> set (filter mutating (calls w))" by (simp add: readsOnly_def)
    then show ?thesis by simp
  qed
  show ?case
  proof (cases r1)
    case (Inl e)
    with Cons.prems f ua acc have "w' = w1" by simp
    with sub1 cr1 show ?thesis by blast
  next
    case (Inr xs)
    obtain r2 w2 where s: "syncToYNAB sv a xs w1 = (r2, w2)"
      by (cases "syncToYNAB sv a xs w1")
    note s1 = syncToYNAB_calls [OF s]
    show ?thesis
    proof (cases r2)
      case (Inl e)
      with Cons.prems f ua acc Inr s have "w' = w2" by simp
      with sub1 cr1 s1 show ?thesis by blast
    next
      case res: (Inr result)
      with Cons.prems f ua acc Inr s
      have "syncAccounts sv since m
              (rs @ [\<lparr> a_upAccountId = u, a_ynabAccountId = a,
                        a_imported = imported result, a_duplicates = duplicates result \<rparr>],
               ti + imported result, td + duplicates result, tt + total result) w2 = (r, w')"
        by simp
      from Cons.IH [OF this] sub1 cr1 s1 show ?thesis by blast
    qed
  qed
qed

section \<open>The reconciliation pass, from its plan\<close>

lemma performResyncAll_failed:
  "resyncPlan sv m w = (Inl e, w1) \<Longrightarrow> performResyncAll sv m dry w = (Inl e, w1)"
  by (simp add: performResyncAll_def)

lemma performResyncAll_nothing:
  "resyncPlan sv m w = (Inr None, w1) \<Longrightarrow> performResyncAll sv m dry w = (Inr (nothingToResync dry), w1)"
  by (simp add: performResyncAll_def)

lemma performResyncAll_dry:
  "resyncPlan sv m w = (Inr (Some p), w1) \<Longrightarrow>
   performResyncAll sv m True w =
     (Inr \<lparr> resultMessage = ''Dry run complete - no changes made'', dryRun = True,
            earliestDate = Some (p_earliestDate p),
            totalImported = 0, totalDuplicates = 0, totalTransactions = 0,
            orphanedDeleted = 0, orphanedTransactions = p_orphanedTransactions p,
            restoredCount = 0,
            restoredTransactions = map (\<lambda>(upTx, a). restoredOf upTx) (p_transactionsToRestore p),
            accounts = [] \<rparr>, w1)"
  by (simp add: performResyncAll_def)

lemma performResyncAll_live:
  assumes "resyncPlan sv m w = (Inr (Some p), w1)"
    and "deleteOrphans sv (p_orphanedTransactions p) 0 w1 = (n, w2)"
    and "restoreAccounts sv (groupByAccount (p_transactionsToRestore p) []) (0, []) w2 = ((rn, rs), w3)"
  shows "performResyncAll sv m False w =
     (case syncAccounts sv (p_earliestDate p) m ([], 0, 0, 0) w3 of
        (Inl e, w4) \<Rightarrow> (Inl e, w4)
      | (Inr (results, ti, td, tt), w4) \<Rightarrow>
          (Inr \<lparr> resultMessage = ''Full resync complete'', dryRun = False,
                 earliestDate = Some (p_earliestDate p),
                 totalImported = ti, totalDuplicates = td, totalTransactions = tt,
                 orphanedDeleted = n, orphanedTransactions = p_orphanedTransactions p,
                 restoredCount = rn, restoredTransactions = rs, accounts = results \<rparr>, w4))"
proof -
  have d: "(if \<not> False \<and> length (p_orphanedTransactions p) > 0
            then deleteOrphans sv (p_orphanedTransactions p) 0 w1 else (0, w1)) = (n, w2)"
    using assms(2) by (cases "p_orphanedTransactions p") auto
  have r: "(if \<not> False \<and> length (p_transactionsToRestore p) > 0
            then restoreAccounts sv (groupByAccount (p_transactionsToRestore p) []) (0, []) w2
            else if length (p_transactionsToRestore p) > 0
            then ((0, map (\<lambda>(upTx, a). restoredOf upTx) (p_transactionsToRestore p)), w2)
            else ((0, []), w2)) = ((rn, rs), w3)"
    using assms(3) by (cases "p_transactionsToRestore p") auto
  show ?thesis
    unfolding performResyncAll_def assms(1) prod.case sum.case option.case Let_def d r
    by (auto split: prod.splits sum.splits)
qed

section \<open>Failures of the listings\<close>

lemma collectYnab_fault:
  "\<exists>k<length as. faults sv (calls w @ map GetTransactionsByAccount (take k as))
                    (GetTransactionsByAccount (as ! k)) \<Longrightarrow>
     fst (collectYnab sv as acc w) = Inl YnabApiError"
proof (induction as arbitrary: acc w)
  case Nil
  then show ?case by simp
next
  case (Cons a as)
  obtain byAccount e where acc: "acc = (byAccount, e)" by (cases acc)
  show ?case
  proof (cases "faults sv (calls w) (GetTransactionsByAccount a)")
    case True
    then show ?thesis by (simp add: acc getTransactionsByAccount_eq)
  next
    case False
    from Cons.prems obtain k where k: "k < length (a # as)"
      "faults sv (calls w @ map GetTransactionsByAccount (take k (a # as)))
         (GetTransactionsByAccount ((a # as) ! k))" by blast
    with False obtain j where j: "k = Suc j" by (cases k) auto
    let ?w1 = "w\<lparr>calls := calls w @ [GetTransactionsByAccount a]\<rparr>"
    from k j have "\<exists>k<length as. faults sv (calls ?w1 @ map GetTransactionsByAccount (take k as))
                    (GetTransactionsByAccount (as ! k))"
      by (intro exI [of _ j]) simp
    from Cons.IH [OF this] False show ?thesis
      by (simp add: acc getTransactionsByAccount_eq)
  qed
qed

lemma performResyncAll_listing_fault:
  "\<exists>k<length m. faults sv (calls w @ map (\<lambda>ua. GetTransactionsByAccount (snd ua)) (take k m))
                    (GetTransactionsByAccount (snd (m ! k))) \<Longrightarrow>
     fst (performResyncAll sv m dry w) = Inl YnabApiError"
proof -
  assume "\<exists>k<length m. faults sv (calls w @ map (\<lambda>ua. GetTransactionsByAccount (snd ua)) (take k m))
                    (GetTransactionsByAccount (snd (m ! k)))"
  then obtain k where k: "k < length m"
    "faults sv (calls w @ map (\<lambda>ua. GetTransactionsByAccount (snd ua)) (take k m))
       (GetTransactionsByAccount (snd (m ! k)))" by blast
  have e: "map GetTransactionsByAccount (take k (map snd m))
             = map (\<lambda>ua. GetTransactionsByAccount (snd ua)) (take k m)"
    by (simp add: take_map)
  from k have "\<exists>k<length (map snd m).
               faults sv (calls w @ map GetTransactionsByAccount (take k (map snd m)))
                 (GetTransactionsByAccount (map snd m ! k))"
    by (intro exI [of _ k]) (simp add: e)
  from collectYnab_fault [OF this, of "([], None)"]
  obtain w1 where "collectYnab sv (map snd m) ([], None) w = (Inl YnabApiError, w1)"
    by (cases "collectYnab sv (map snd m) ([], None) w") auto
  then show ?thesis
    by (simp add: performResyncAll_def resyncPlan_def)
qed

section \<open>When only the best-effort requests fail\<close>

lemma collectYnab_ok:
  "\<forall>h c. faults sv h c \<longrightarrow> bestEffort c \<Longrightarrow> \<exists>x. fst (collectYnab sv as acc w) = Inr x"
proof (induction as arbitrary: acc w)
  case Nil
  show ?case by simp
next
  case (Cons a as)
  obtain byAccount e where acc: "acc = (byAccount, e)" by (cases acc)
  have "\<not> bestEffort (GetTransactionsByAccount a)" by simp
  with Cons.prems have "\<not> faults sv (calls w) (GetTransactionsByAccount a)" by blast
  with Cons.IH [OF Cons.prems] show ?case
    by (simp add: acc getTransactionsByAccount_eq)
qed

lemma fetchPages_ok:
  "\<forall>h c. faults sv h c \<longrightarrow> bestEffort c \<Longrightarrow> \<exists>x. fst (fetchPages sv u d n ps acc w) = Inr x"
proof (induction ps arbitrary: n acc w)
  case Nil
  show ?case by simp
next
  case (Cons p ps)
  have "\<not> bestEffort (FetchUp u d n)" by simp
  with Cons.prems have "\<not> faults sv (calls w) (FetchUp u d n)" by blast
  with Cons.IH [OF Cons.prems] show ?case
    by (simp add: request_def)
qed

lemma fetchUp_ok:
  "\<forall>h c. faults sv h c \<longrightarrow> bestEffort c \<Longrightarrow> \<exists>x. fst (fetchUpTransactionsByAccount sv u d w) = Inr x"
  by (simp add: fetchUpTransactionsByAccount_def fetchPages_ok)

lemma fetchAll_ok:
  "\<forall>h c. faults sv h c \<longrightarrow> bestEffort c \<Longrightarrow> \<exists>x. fst (fetchAll sv since rs m acc w) = Inr x"
proof (induction m arbitrary: acc w)
  case Nil
  show ?case by simp
next
  case (Cons ua m)
  obtain u a where ua: "ua = (u, a)" by (cases ua)
  obtain ids q where acc: "acc = (ids, q)" by (cases acc)
  from fetchUp_ok [OF Cons.prems, of u since w] obtain xs w1 where
    "fetchUpTransactionsByAccount sv u since w = (Inr xs, w1)"
    by (cases "fetchUpTransactionsByAccount sv u since w") auto
  with Cons.IH [OF Cons.prems] show ?case
    by (simp add: ua acc)
qed

lemma resyncPlan_ok:
  "\<forall>h c. faults sv h c \<longrightarrow> bestEffort c \<Longrightarrow> \<exists>x. fst (resyncPlan sv m w) = Inr x"
proof -
  assume nf: "\<forall>h c. faults sv h c \<longrightarrow> bestEffort c"
  from collectYnab_ok [OF nf, of "map snd m" "([], None)" w] obtain byAccount e w1 where
    c: "collectYnab sv (map snd m) ([], None) w = (Inr (byAccount, e), w1)"
    by (cases "collectYnab sv (map snd m) ([], None) w") auto
  have "\<not> bestEffort GetTransactions" by simp
  with nf have g: "\<not> faults sv (calls w1) GetTransactions" by blast
  let ?f = "fetchAll sv (orElse e []) (restorableImportIds (ynab w1)) m ([], [])
       (w1\<lparr>calls := calls w1 @ [GetTransactions]\<rparr>)"
  from fetchAll_ok [OF nf, of "orElse e []" "restorableImportIds (ynab w1)" m "([], [])"
                      "w1\<lparr>calls := calls w1 @ [GetTransactions]\<rparr>"]
  obtain x w3 where f: "?f = (Inr x, w3)"
    by (cases ?f) auto
  obtain ids q where x: "x = (ids, q)" by (cases x)
  show ?thesis
  proof (cases "orElse e [] = []")
    case True
    with c show ?thesis by (simp add: resyncPlan_def)
  next
    case False
    with c g f x show ?thesis by (simp add: resyncPlan_def getTransactions_eq)
  qed
qed

lemma syncToYNAB_ok:
  "\<forall>h c. faults sv h c \<longrightarrow> bestEffort c \<Longrightarrow> \<exists>x. fst (syncToYNAB sv a xs w) = Inr x"
proof (cases "xs = []")
  case True
  then show ?thesis by (simp add: syncToYNAB_def)
next
  case False
  assume nf: "\<forall>h c. faults sv h c \<longrightarrow> bestEffort c"
  let ?batch = "map (ynabTransaction a (clock sv)) xs"
  from False obtain y ys where xs: "xs = y # ys" by (cases xs) auto
  have i: "s_import_id (ynabTransaction a (clock sv) y) \<noteq> None"
    by (simp add: ynabTransaction_def Let_def)
  have m: "ynabTransaction a (clock sv) y \<in> set ?batch"
    by (simp add: xs)
  have "\<exists>x\<in>set ?batch. s_import_id x \<noteq> None"
    using i by (rule bexI [where x = "ynabTransaction a (clock sv) y"]) (rule m)
  then have "\<not> bestEffort (CreateTransactions ?batch)"
    by (simp only: bestEffort.simps) simp
  with nf have "\<not> faults sv (calls w) (CreateTransactions ?batch)" by blast
  then show ?thesis
    by (simp add: syncToYNAB_nonempty [OF False] Let_def)
qed

lemma syncAccounts_ok:
  "\<forall>h c. faults sv h c \<longrightarrow> bestEffort c \<Longrightarrow> \<exists>x. fst (syncAccounts sv since m acc w) = Inr x"
proof (induction m arbitrary: acc w)
  case Nil
  obtain rs ti td tt where "acc = (rs, ti, td, tt)" using prod_cases4 by blast
  then show ?case by simp
next
  case (Cons ua m)
  obtain u a where ua: "ua = (u, a)" by (cases ua)
  obtain rs ti td tt where acc: "acc = (rs, ti, td, tt)" using prod_cases4 by blast
  from fetchUp_ok [OF Cons.prems, of u since w] obtain xs w1 where
    f: "fetchUpTransactionsByAccount sv u since w = (Inr xs, w1)"
    by (cases "fetchUpTransactionsByAccount sv u since w") auto
  from syncToYNAB_ok [OF Cons.prems, of a xs w1] obtain res w2 where
    s: "syncToYNAB sv a xs w1 = (Inr res, w2)"
    by (cases "syncToYNAB sv a xs w1") auto
  from Cons.IH [OF Cons.prems] f s show ?case
    by (simp add: ua acc)
qed

lemma live_shape:
  assumes plan: "resyncPlan sv m w = (Inr (Some p), w1)"
    and run: "performResyncAll sv m False w = (r, w')"
  obtains n w2 rn rs w3 r4 where
    "deleteOrphans sv (p_orphanedTransactions p) 0 w1 = (n, w2)"
    "restoreAccounts sv (groupByAccount (p_transactionsToRestore p) []) (0, []) w2 = ((rn, rs), w3)"
    "syncAccounts sv (p_earliestDate p) m ([], 0, 0, 0) w3 = (r4, w')"
    "r = (case r4 of
            Inl e \<Rightarrow> Inl e
          | Inr (results, ti, td, tt) \<Rightarrow>
              Inr \<lparr> resultMessage = ''Full resync complete'', dryRun = False,
                     earliestDate = Some (p_earliestDate p),
                     totalImported = ti, totalDuplicates = td, totalTransactions = tt,
                     orphanedDeleted = n, orphanedTransactions = p_orphanedTransactions p,
                     restoredCount = rn, restoredTransactions = rs, accounts = results \<rparr>)"
proof -
  obtain n w2 where d: "deleteOrphans sv (p_orphanedTransactions p) 0 w1 = (n, w2)"
    by (cases "deleteOrphans sv (p_orphanedTransactions p) 0 w1")
  obtain rn rs w3 where
    x: "restoreAccounts sv (groupByAccount (p_transactionsToRestore p) []) (0, []) w2 = ((rn, rs), w3)"
    by (cases "restoreAccounts sv (groupByAccount (p_transactionsToRestore p) []) (0, []) w2") auto
  obtain r4 w4 where s: "syncAccounts sv (p_earliestDate p) m ([], 0, 0, 0) w3 = (r4, w4)"
    by (cases "syncAccounts sv (p_earliestDate p) m ([], 0, 0, 0) w3")
  from run have "w' = w4 \<and> r = (case r4 of
            Inl e \<Rightarrow> Inl e
          | Inr (results, ti, td, tt) \<Rightarrow>
              Inr \<lparr> resultMessage = ''Full resync complete'', dryRun = False,
                     earliestDate = Some (p_earliestDate p),
                     totalImported = ti, totalDuplicates = td, totalTransactions = tt,
                     orphanedDeleted = n, orphanedTransactions = p_orphanedTransactions p,
                     restoredCount = rn, restoredTransactions = rs, accounts = results \<rparr>)"
    unfolding performResyncAll_live [OF plan d x] s
  proof (cases r4)
    case (Inl e)
    assume "(case (r4, w4) of
              (Inl e, w4) \<Rightarrow> (Inl e, w4)
            | (Inr (results, ti, td, tt), w4) \<Rightarrow>
                (Inr \<lparr> resultMessage = ''Full resync complete'', dryRun = False,
                       earliestDate = Some (p_earliestDate p),
                       totalImported = ti, totalDuplicates = td, totalTransactions = tt,
                       orphanedDeleted = n, orphanedTransactions = p_orphanedTransactions p,
                       restoredCount = rn, restoredTransactions = rs, accounts = results \<rparr>, w4))
            = (r, w')"
    with Inl show ?thesis by simp
  next
    case (Inr c)
    obtain results ti td tt where c: "c = (results, ti, td, tt)" using prod_cases4 by blast
    assume "(case (r4, w4) of
              (Inl e, w4) \<Rightarrow> (Inl e, w4)
            | (Inr (results, ti, td, tt), w4) \<Rightarrow>
                (Inr \<lparr> resultMessage = ''Full resync complete'', dryRun = False,
                       earliestDate = Some (p_earliestDate p),
                       totalImported = ti, totalDuplicates = td, totalTransactions = tt,
                       orphanedDeleted = n, orphanedTransactions = p_orphanedTransactions p,
                       restoredCount = rn, restoredTransactions = rs, accounts = results \<rparr>, w4))
            = (r, w')"
    with Inr c show ?thesis by auto
  qed
  with d x s that show ?thesis by blast
qed

lemma groups_of_queue:
  "(\<Union>g\<in>set (groupByAccount q []). set (snd g)) = fst ` set q"
proof -
  have "fst ` (\<Union>g\<in>set (groupByAccount q []). (\<lambda>tx. (tx, fst g)) ` set (snd g)) = fst ` set q"
    by (simp only: groupByAccount_flat) simp
  then show ?thesis by (simp add: image_UN image_image)
qed

lemma live_report:
  assumes plan: "resyncPlan sv m w = (Inr (Some p), w1)"
    and run: "performResyncAll sv m False w = (Inr rl, wl)"
  shows "earliestDate rl = Some (p_earliestDate p) \<and>
         orphanedTransactions rl = p_orphanedTransactions p \<and>
         orphanedDeleted rl \<le> length (p_orphanedTransactions p) \<and>
         set (restoredTransactions rl) \<subseteq> restoredOf ` fst ` set (p_transactionsToRestore p) \<and>
         restoredCount rl = length (restoredTransactions rl) \<and>
         restoredCount rl \<le> length (p_transactionsToRestore p) \<and>
         ((\<forall>h b. \<not> faults sv h (CreateTransactions b)) \<longrightarrow>
            restoredCount rl = length (p_transactionsToRestore p)) \<and>
         ((\<forall>h i. \<not> faults sv h (DeleteTransaction i)) \<longrightarrow>
            orphanedDeleted rl = length (p_orphanedTransactions p))"
proof -
  from live_shape [OF plan run] obtain n w2 rn rs w3 r4 where
    d: "deleteOrphans sv (p_orphanedTransactions p) 0 w1 = (n, w2)" and
    x: "restoreAccounts sv (groupByAccount (p_transactionsToRestore p) []) (0, []) w2 = ((rn, rs), w3)" and
    s: "syncAccounts sv (p_earliestDate p) m ([], 0, 0, 0) w3 = (r4, wl)" and
    r: "Inr rl = (case r4 of
            Inl e \<Rightarrow> Inl e
          | Inr (results, ti, td, tt) \<Rightarrow>
              Inr \<lparr> resultMessage = ''Full resync complete'', dryRun = False,
                     earliestDate = Some (p_earliestDate p),
                     totalImported = ti, totalDuplicates = td, totalTransactions = tt,
                     orphanedDeleted = n, orphanedTransactions = p_orphanedTransactions p,
                     restoredCount = rn, restoredTransactions = rs, accounts = results \<rparr>)"
    by (rule live_shape [OF plan run])
  have f: "earliestDate rl = Some (p_earliestDate p) \<and>
    orphanedTransactions rl = p_orphanedTransactions p \<and>
    orphanedDeleted rl = n \<and> restoredCount rl = rn \<and> restoredTransactions rl = rs"
  proof (cases r4)
    case (Inl e)
    with r show ?thesis by simp
  next
    case (Inr c)
    obtain results ti td tt where "c = (results, ti, td, tt)" using prod_cases4 by blast
    with r Inr show ?thesis by simp
  qed
  note de = deleteOrphans_effect [OF d]
  note xe = restoreAccounts_effect [OF x]
  have sz: "sum_list (map (\<lambda>g. length (snd g)) (groupByAccount (p_transactionsToRestore p) []))
              = length (p_transactionsToRestore p)"
    by (simp add: groupByAccount_size)
  from de have 1: "n \<le> length (p_orphanedTransactions p)"
    and 2: "(\<forall>h i. \<not> faults sv h (DeleteTransaction i)) \<longrightarrow> n = length (p_orphanedTransactions p)"
    by simp_all
  from xe have xe': "rn = length rs \<and> rn \<le> length (p_transactionsToRestore p) \<and>
      set rs \<subseteq> restoredOf ` fst ` set (p_transactionsToRestore p) \<and>
      ((\<forall>h b. \<not> faults sv h (CreateTransactions b)) \<longrightarrow> rn = length (p_transactionsToRestore p))"
    by (auto simp add: sz groups_of_queue)
  from xe' have 3: "rn = length rs" and 4: "rn \<le> length (p_transactionsToRestore p)"
    and 5: "set rs \<subseteq> restoredOf ` fst ` set (p_transactionsToRestore p)"
    and 6: "(\<forall>h b. \<not> faults sv h (CreateTransactions b)) \<longrightarrow> rn = length (p_transactionsToRestore p)"
    by blast+
  from f 1 2 3 4 5 6 show ?thesis by simp
qed

lemma live_calls:
  assumes plan: "resyncPlan sv m w = (Inr (Some p), w1)"
    and run: "performResyncAll sv m False w = (r, w')"
  shows "(\<forall>x\<in>set (p_orphanedTransactions p). DeleteTransaction (ynabId x) \<in> set (calls w')) \<and>
         (\<forall>g\<in>set (groupByAccount (p_transactionsToRestore p) []).
            CreateTransactions (map (restoredTx (fst g) (clock sv)) (snd g)) \<in> set (calls w')) \<and>
         (\<forall>b. CreateTransactions b \<in> set (calls w') \<longrightarrow>
            CreateTransactions b \<in> set (calls w) \<or>
            (\<exists>g\<in>set (groupByAccount (p_transactionsToRestore p) []).
               b = map (restoredTx (fst g) (clock sv)) (snd g)) \<or>
            b \<noteq> [] \<and> (\<forall>x\<in>set b. \<exists>tx::TransactionResource. s_import_id x = Some (importId (txid tx)))) \<and>
         ((\<forall>h i. \<not> faults sv h (DeleteTransaction i)) \<longrightarrow>
            (\<forall>x\<in>set (p_orphanedTransactions p). gone (ynabId x) (ynab w'))) \<and>
         (\<forall>e. r = Inl e \<longrightarrow>
            (\<exists>w3. fst (syncAccounts sv (p_earliestDate p) m ([], 0, 0, 0) w3) = Inl e))"
proof -
  from live_shape [OF plan run] obtain n w2 rn rs w3 r4 where
    d: "deleteOrphans sv (p_orphanedTransactions p) 0 w1 = (n, w2)" and
    x: "restoreAccounts sv (groupByAccount (p_transactionsToRestore p) []) (0, []) w2 = ((rn, rs), w3)" and
    s: "syncAccounts sv (p_earliestDate p) m ([], 0, 0, 0) w3 = (r4, w')" and
    r: "r = (case r4 of
            Inl e \<Rightarrow> Inl e
          | Inr (results, ti, td, tt) \<Rightarrow>
              Inr \<lparr> resultMessage = ''Full resync complete'', dryRun = False,
                     earliestDate = Some (p_earliestDate p),
                     totalImported = ti, totalDuplicates = td, totalTransactions = tt,
                     orphanedDeleted = n, orphanedTransactions = p_orphanedTransactions p,
                     restoredCount = rn, restoredTransactions = rs, accounts = results \<rparr>)"
    by (rule live_shape [OF plan run])
  let ?os = "p_orphanedTransactions p"
  let ?gs = "groupByAccount (p_transactionsToRestore p) []"
  let ?dc = "map (\<lambda>orphan. DeleteTransaction (ynabId orphan)) ?os"
  let ?rc = "map (\<lambda>g. CreateTransactions (map (restoredTx (fst g) (clock sv)) (snd g))) ?gs"
  note pr = resyncPlan_reads [OF plan]
  then have ro: "readsOnly w w1" by simp
  note de = deleteOrphans_effect [OF d]
  note xe = restoreAccounts_effect [OF x]
  note se = syncAccounts_calls [OF s]
  from de have c2: "calls w2 = calls w1 @ ?dc" by simp
  from xe c2 have c3: "calls w3 = calls w1 @ ?dc @ ?rc" by simp
  from se have sub: "set (calls w3) \<subseteq> set (calls w')" by simp
  have a: "\<forall>x\<in>set ?os. DeleteTransaction (ynabId x) \<in> set (calls w')"
    using sub c3 by auto
  have b: "\<forall>g\<in>set ?gs. CreateTransactions (map (restoredTx (fst g) (clock sv)) (snd g)) \<in> set (calls w')"
    using sub c3 by auto
  have cr1: "CreateTransactions b \<in> set (calls w)" if "CreateTransactions b \<in> set (calls w1)" for b
  proof -
    from that have "CreateTransactions b \<in> set (filter mutating (calls w1))" by simp
    with ro have "CreateTransactions b \<in> set (filter mutating (calls w))" by (simp add: readsOnly_def)
    then show ?thesis by simp
  qed
  have c: "CreateTransactions b \<in> set (calls w) \<or>
            (\<exists>g\<in>set ?gs. b = map (restoredTx (fst g) (clock sv)) (snd g)) \<or>
            b \<noteq> [] \<and> (\<forall>x\<in>set b. \<exists>tx::TransactionResource. s_import_id x = Some (importId (txid tx)))"
    if "CreateTransactions b \<in> set (calls w')" for b
  proof -
    from se that have "CreateTransactions b \<in> set (calls w3) \<or>
        b \<noteq> [] \<and> (\<forall>x\<in>set b. \<exists>tx::TransactionResource. s_import_id x = Some (importId (txid tx)))"
      by blast
    moreover have "CreateTransactions b \<in> set (calls w1) \<or>
            (\<exists>g\<in>set ?gs. b = map (restoredTx (fst g) (clock sv)) (snd g))"
      if "CreateTransactions b \<in> set (calls w3)"
      using that unfolding c3 by auto
    ultimately show ?thesis using cr1 by blast
  qed
  have g: "\<forall>x\<in>set ?os. gone (ynabId x) (ynab w')" if nf: "\<forall>h i. \<not> faults sv h (DeleteTransaction i)"
  proof
    fix x assume xo: "x \<in> set ?os"
    from plan_orphans [OF plan] xo obtain t where "t \<in> set (ynab w)" "x = orphanOf (upBankTransaction t)"
      by auto
    then have "ynabId x \<in> t_id ` set (ynab w)"
      by (simp add: orphanOf_def upBankTransaction_def)
    with ro have "ynabId x \<in> t_id ` set (ynab w1)" by (simp add: readsOnly_def)
    with de nf xo have "gone (ynabId x) (ynab w2)" by blast
    then have "gone (ynabId x) (ynab w3)" by (rule restoreAccounts_gone [OF x])
    then show "gone (ynabId x) (ynab w')" by (rule syncAccounts_gone [OF s])
  qed
  have e: "\<exists>w3. fst (syncAccounts sv (p_earliestDate p) m ([], 0, 0, 0) w3) = Inl e" if "r = Inl e" for e
  proof -
    have "r4 = Inl e"
    proof (cases r4)
      case (Inl e')
      with r that show ?thesis by simp
    next
      case (Inr c)
      obtain results ti td tt where "c = (results, ti, td, tt)" using prod_cases4 by blast
      with r that Inr show ?thesis by simp
    qed
    with s show ?thesis by (intro exI [of _ w3]) simp
  qed
  from a b c g e show ?thesis by blast
qed

lemma concat_map_mem: "x \<in> set m \<Longrightarrow> y \<in> set (f x) \<Longrightarrow> y \<in> set (concat (map f m))"
  by auto

lemma queue_mem:
  assumes "resyncPlan sv m w = (Inr (Some p), w1)"
  shows "(tx, a) \<in> set (p_transactionsToRestore p) \<longleftrightarrow>
           (\<exists>u. (u, a) \<in> set m \<and> tx \<in> set (concat (up sv u (p_earliestDate p))) \<and>
                restorableKey (ynab w) (importId (txid tx)))"
proof -
  from resyncPlan_reads [OF assms]
  have q: "p_transactionsToRestore p =
          concat (map (\<lambda>ua. map (\<lambda>tx. (tx, snd ua))
                         (filter (\<lambda>tx. importId (txid tx) \<in> set (restorableImportIds (ynab w)))
                            (concat (up sv (fst ua) (p_earliestDate p))))) m)"
    by blast
  show ?thesis
  proof
    assume "(tx, a) \<in> set (p_transactionsToRestore p)"
    then obtain ua where ua: "ua \<in> set m" "snd ua = a"
      "tx \<in> set (concat (up sv (fst ua) (p_earliestDate p)))"
      "importId (txid tx) \<in> set (restorableImportIds (ynab w))"
      unfolding q by auto
    from ua(1,2) have "(fst ua, a) \<in> set m" by (cases ua) auto
    with ua(3,4) show "\<exists>u. (u, a) \<in> set m \<and> tx \<in> set (concat (up sv u (p_earliestDate p))) \<and>
                restorableKey (ynab w) (importId (txid tx))"
      by (intro exI [of _ "fst ua"]) (simp add: restorableImportIds_mem)
  next
    assume "\<exists>u. (u, a) \<in> set m \<and> tx \<in> set (concat (up sv u (p_earliestDate p))) \<and>
                restorableKey (ynab w) (importId (txid tx))"
    then obtain u where u: "(u, a) \<in> set m" "tx \<in> set (concat (up sv u (p_earliestDate p)))"
      "restorableKey (ynab w) (importId (txid tx))" by blast
    from u(2,3) have "tx \<in> set (filter (\<lambda>tx. importId (txid tx) \<in> set (restorableImportIds (ynab w)))
                            (concat (up sv u (p_earliestDate p))))"
      by (simp add: restorableImportIds_mem)
    then have "(tx, a) \<in> set (map (\<lambda>tx. (tx, snd (u, a)))
                         (filter (\<lambda>tx. importId (txid tx) \<in> set (restorableImportIds (ynab w)))
                            (concat (up sv (fst (u, a)) (p_earliestDate p)))))"
      by (simp only: set_map fst_conv snd_conv) (rule imageI)
    with u(1) show "(tx, a) \<in> set (p_transactionsToRestore p)"
      unfolding q by (rule concat_map_mem)
  qed
qed

lemma orphan_iff:
  assumes plan: "resyncPlan sv m w = (Inr (Some p), w1)"
    and t: "t \<in> set (ynab w)" "t_account_id t \<in> snd ` set m" "\<not> t_deleted t"
           "startsWithUPBANK (t_import_id t)"
  shows "orphanOf (upBankTransaction t) \<in> set (p_orphanedTransactions p) \<longleftrightarrow>
           drop 7 (orElse (t_import_id t) []) \<notin> sourceIds sv m (p_earliestDate p)"
proof
  assume "orphanOf (upBankTransaction t) \<in> set (p_orphanedTransactions p)"
  then obtain t' where t': "orphanOf (upBankTransaction t) = orphanOf (upBankTransaction t')"
    "startsWithUPBANK (t_import_id t')"
    "drop 7 (orElse (t_import_id t') []) \<notin> sourceIds sv m (p_earliestDate p)"
    unfolding plan_orphans [OF plan] by blast
  from t'(1) have "upId (orphanOf (upBankTransaction t)) = upId (orphanOf (upBankTransaction t'))"
    by simp
  then have "drop 7 (orElse (t_import_id t) []) = drop 7 (orElse (t_import_id t') [])"
    using upId_of_entry [OF t(4)] upId_of_entry [OF t'(2)] by (simp add: orphanOf_def)
  with t'(3) show "drop 7 (orElse (t_import_id t) []) \<notin> sourceIds sv m (p_earliestDate p)"
    by simp
next
  assume "drop 7 (orElse (t_import_id t) []) \<notin> sourceIds sv m (p_earliestDate p)"
  with t show "orphanOf (upBankTransaction t) \<in> set (p_orphanedTransactions p)"
    unfolding plan_orphans [OF plan] by blast
qed

text \<open>Runs of the reconciliation on the concrete data.\<close>

lemmas run_defs =
  performResyncAll_def resyncPlan_def getTransactionsByAccount_eq getTransactions_eq
  deleteTransaction_eq createTransactions_eq updateDuplicates_eq syncToYNAB_def
  fetchUpTransactionsByAccount_def request_def logError_def Let_def
  listing_def softDelete_def upBankTransactions_def upBankTransaction_def startsWithUPBANK_def
  earlier_def restorableImportIds_mem restorableKey_def findOrphans_def orphanOf_def restoredOf_def
  nothingToResync_def importId_def ynabTransaction_def restoredTx_def clearedStatusOf_def
  statusWarning_def attr_def amountValue_def keyInUse_def newTransaction_def newId_def
  desiredClearedStatus_def transactionsToUpdate_def parse_defs example_defs

lemma ex_plan:
  "resyncPlan (exampleSetting [exampleTx ''tx-2'' ''HELD''] noFaults) [(''up1'', ''y1'')]
     (exampleWorld [exampleEntry ''A'' ''y1'' (Some ''UPBANK:tx-1'') Cleared False])
   = (Inr (Some \<lparr> p_earliestDate = ''2024-02-03'', p_transactionsToRestore = [],
                   p_orphanedTransactions =
                     [\<lparr>ynabId = ''A'', upId = ''tx-1'', o_payee = ''Shop'',
                       o_amount = Num (- 5944751508129055 / 562949953421312), o_date = ''2024-02-03''\<rparr>] \<rparr>),
      \<lparr>ynab = [exampleEntry ''A'' ''y1'' (Some ''UPBANK:tx-1'') Cleared False],
        calls = [GetTransactionsByAccount ''y1'', GetTransactions, FetchUp ''up1'' ''2024-02-03'' 0],
        console = []\<rparr>)"
  by (simp add: run_defs)

lemma ex_live:
  "performResyncAll (exampleSetting [exampleTx ''tx-2'' ''HELD''] noFaults) [(''up1'', ''y1'')] False
     (exampleWorld [exampleEntry ''A'' ''y1'' (Some ''UPBANK:tx-1'') Cleared False])
   = (Inr \<lparr> resultMessage = ''Full resync complete'', dryRun = False,
            earliestDate = Some ''2024-02-03'',
            totalImported = 1, totalDuplicates = 0, totalTransactions = 1,
            orphanedDeleted = 1,
            orphanedTransactions =
                     [\<lparr>ynabId = ''A'', upId = ''tx-1'', o_payee = ''Shop'',
                       o_amount = Num (- 5944751508129055 / 562949953421312), o_date = ''2024-02-03''\<rparr>],
            restoredCount = 0, restoredTransactions = [],
            accounts = [\<lparr>a_upAccountId = ''up1'', a_ynabAccountId = ''y1'',
                         a_imported = 1, a_duplicates = 0\<rparr>] \<rparr>,
      \<lparr>ynab = [exampleEntry ''A'' ''y1'' (Some ''UPBANK:tx-1'') Cleared True,
               exampleEntry ''##'' ''y1'' (Some ''UPBANK:tx-2'') Uncleared False],
        calls = [GetTransactionsByAccount ''y1'', GetTransactions, FetchUp ''up1'' ''2024-02-03'' 0,
                 DeleteTransaction ''A'', FetchUp ''up1'' ''2024-02-03'' 0,
                 CreateTransactions [ynabTransaction ''y1'' ''2024-05-05T00:00:00.000Z'' (exampleTx ''tx-2'' ''HELD'')]],
        console = []\<rparr>)"
  by (simp add: run_defs)

lemma ex_dry:
  "performResyncAll (exampleSetting [exampleTx ''tx-2'' ''HELD''] noFaults) [(''up1'', ''y1'')] True
     (exampleWorld [exampleEntry ''A'' ''y1'' (Some ''UPBANK:tx-1'') Cleared False])
   = (Inr \<lparr> resultMessage = ''Dry run complete - no changes made'', dryRun = True,
            earliestDate = Some ''2024-02-03'',
            totalImported = 0, totalDuplicates = 0, totalTransactions = 0,
            orphanedDeleted = 0,
            orphanedTransactions =
                     [\<lparr>ynabId = ''A'', upId = ''tx-1'', o_payee = ''Shop'',
                       o_amount = Num (- 5944751508129055 / 562949953421312), o_date = ''2024-02-03''\<rparr>],
            restoredCount = 0, restoredTransactions = [], accounts = [] \<rparr>,
      \<lparr>ynab = [exampleEntry ''A'' ''y1'' (Some ''UPBANK:tx-1'') Cleared False],
        calls = [GetTransactionsByAccount ''y1'', GetTransactions, FetchUp ''up1'' ''2024-02-03'' 0],
        console = []\<rparr>)"
  by (simp add: performResyncAll_dry [OF ex_plan])

lemma ex_plan_restore:
  "resyncPlan (exampleSetting [exampleTx ''tx-1'' ''SETTLED''] noFaults) [(''up1'', ''y1'')]
     (exampleWorld [exampleEntry ''A'' ''y1'' (Some ''UPBANK:tx-1'') Cleared True,
                    exampleEntry ''B'' ''y1'' None Cleared False])
   = (Inr (Some \<lparr> p_earliestDate = ''2024-02-03'',
                   p_transactionsToRestore = [(exampleTx ''tx-1'' ''SETTLED'', ''y1'')],
                   p_orphanedTransactions = [] \<rparr>),
      \<lparr>ynab = [exampleEntry ''A'' ''y1'' (Some ''UPBANK:tx-1'') Cleared True,
               exampleEntry ''B'' ''y1'' None Cleared False],
        calls = [GetTransactionsByAccount ''y1'', GetTransactions, FetchUp ''up1'' ''2024-02-03'' 0],
        console = []\<rparr>)"
  by (simp add: run_defs)

lemma ex_delete_fails:
  "performResyncAll (exampleSetting [exampleTx ''tx-2'' ''HELD''] (\<lambda>h c. c = DeleteTransaction ''A''))
     [(''up1'', ''y1'')] False
     (exampleWorld [exampleEntry ''A'' ''y1'' (Some ''UPBANK:tx-1'') Cleared False])
   = (Inr \<lparr> resultMessage = ''Full resync complete'', dryRun = False,
            earliestDate = Some ''2024-02-03'',
            totalImported = 1, totalDuplicates = 0, totalTransactions = 1,
            orphanedDeleted = 0,
            orphanedTransactions =
                     [\<lparr>ynabId = ''A'', upId = ''tx-1'', o_payee = ''Shop'',
                       o_amount = Num (- 5944751508129055 / 562949953421312), o_date = ''2024-02-03''\<rparr>],
            restoredCount = 0, restoredTransactions = [],
            accounts = [\<lparr>a_upAccountId = ''up1'', a_ynabAccountId = ''y1'',
                         a_imported = 1, a_duplicates = 0\<rparr>] \<rparr>,
      \<lparr>ynab = [exampleEntry ''A'' ''y1'' (Some ''UPBANK:tx-1'') Cleared False,
               exampleEntry ''##'' ''y1'' (Some ''UPBANK:tx-2'') Uncleared False],
        calls = [GetTransactionsByAccount ''y1'', GetTransactions, FetchUp ''up1'' ''2024-02-03'' 0,
                 DeleteTransaction ''A'', FetchUp ''up1'' ''2024-02-03'' 0,
                 CreateTransactions [ynabTransaction ''y1'' ''2024-05-05T00:00:00.000Z'' (exampleTx ''tx-2'' ''HELD'')]],
        console = [Err ''Failed to delete orphan'']\<rparr>)"
  by (simp add: run_defs)

section \<open>Orphan detection\<close>

text \<open>
  Claim C2 (orphan detection uses the truncated key on both sides).  Whenever the plan of
  a reconciliation pass is computed: a non-deleted transaction of a mapped target account
  whose key starts with \<^verbatim>\<open>UPBANK:\<close> is marked orphaned exactly when its key with the
  prefix stripped is absent from the set of the identifiers, cut to 29 characters, of
  every source transaction fetched since the earliest date over all mappings; nothing
  else is marked; the dry run and the live run both report exactly the marked
  transactions; the live run sends a delete for every marked transaction, and when no
  delete fails every one of them ends soft-deleted and \<^verbatim>\<open>orphanedDeleted\<close> counts them
  all.
\<close>

theorem orphan_detection:
  assumes plan: "resyncPlan sv m w = (Inr (Some p), w1)"
  shows "(\<forall>t\<in>set (ynab w).
            t_account_id t \<in> snd ` set m \<and> \<not> t_deleted t \<and> startsWithUPBANK (t_import_id t) \<longrightarrow>
              (orphanOf (upBankTransaction t) \<in> set (p_orphanedTransactions p) \<longleftrightarrow>
               drop 7 (orElse (t_import_id t) []) \<notin> sourceIds sv m (p_earliestDate p))) \<and>
         set (p_orphanedTransactions p) \<subseteq>
           {orphanOf (upBankTransaction t) | t.
              t \<in> set (ynab w) \<and> t_account_id t \<in> snd ` set m \<and> \<not> t_deleted t \<and>
              startsWithUPBANK (t_import_id t)} \<and>
         (\<exists>rd. fst (performResyncAll sv m True w) = Inr rd \<and>
               orphanedTransactions rd = p_orphanedTransactions p) \<and>
         (\<forall>x\<in>set (p_orphanedTransactions p).
            DeleteTransaction (ynabId x) \<in> set (calls (snd (performResyncAll sv m False w)))) \<and>
         (\<forall>rl. fst (performResyncAll sv m False w) = Inr rl \<longrightarrow>
            orphanedTransactions rl = p_orphanedTransactions p) \<and>
         ((\<forall>h i. \<not> faults sv h (DeleteTransaction i)) \<longrightarrow>
            (\<forall>x\<in>set (p_orphanedTransactions p).
               gone (ynabId x) (ynab (snd (performResyncAll sv m False w)))) \<and>
            (\<forall>rl. fst (performResyncAll sv m False w) = Inr rl \<longrightarrow>
               orphanedDeleted rl = length (orphanedTransactions rl)))"
proof -
  obtain r w' where run: "performResyncAll sv m False w = (r, w')"
    by (cases "performResyncAll sv m False w")
  note lc = live_calls [OF plan run]
  have lr: "orphanedTransactions rl = p_orphanedTransactions p \<and>
            ((\<forall>h i. \<not> faults sv h (DeleteTransaction i)) \<longrightarrow>
               orphanedDeleted rl = length (orphanedTransactions rl))" if "r = Inr rl" for rl
    using live_report [OF plan, of rl w'] run that by simp
  have 1: "\<forall>t\<in>set (ynab w).
            t_account_id t \<in> snd ` set m \<and> \<not> t_deleted t \<and> startsWithUPBANK (t_import_id t) \<longrightarrow>
              (orphanOf (upBankTransaction t) \<in> set (p_orphanedTransactions p) \<longleftrightarrow>
               drop 7 (orElse (t_import_id t) []) \<notin> sourceIds sv m (p_earliestDate p))"
    using orphan_iff [OF plan] by blast
  have 2: "set (p_orphanedTransactions p) \<subseteq>
           {orphanOf (upBankTransaction t) | t.
              t \<in> set (ynab w) \<and> t_account_id t \<in> snd ` set m \<and> \<not> t_deleted t \<and>
              startsWithUPBANK (t_import_id t)}"
    unfolding plan_orphans [OF plan] by blast
  have 3: "\<exists>rd. fst (performResyncAll sv m True w) = Inr rd \<and>
               orphanedTransactions rd = p_orphanedTransactions p"
    by (simp add: performResyncAll_dry [OF plan])
  from lc have 4: "\<forall>x\<in>set (p_orphanedTransactions p).
            DeleteTransaction (ynabId x) \<in> set (calls (snd (performResyncAll sv m False w)))"
    by (simp add: run)
  from lr have 5: "\<forall>rl. fst (performResyncAll sv m False w) = Inr rl \<longrightarrow>
            orphanedTransactions rl = p_orphanedTransactions p"
    by (simp add: run)
  have 6: "(\<forall>h i. \<not> faults sv h (DeleteTransaction i)) \<longrightarrow>
            (\<forall>x\<in>set (p_orphanedTransactions p).
               gone (ynabId x) (ynab (snd (performResyncAll sv m False w)))) \<and>
            (\<forall>rl. fst (performResyncAll sv m False w) = Inr rl \<longrightarrow>
               orphanedDeleted rl = length (orphanedTransactions rl))"
    using lc lr by (simp add: run)
  from 1 2 3 4 5 6 show ?thesis by (intro conjI)
qed

theorem orphan_detection_witness:
  "fst (resyncPlan (exampleSetting [exampleTx ''tx-2'' ''HELD''] noFaults) [(''up1'', ''y1'')]
          (exampleWorld [exampleEntry ''A'' ''y1'' (Some ''UPBANK:tx-1'') Cleared False]))
     = Inr (Some \<lparr> p_earliestDate = ''2024-02-03'', p_transactionsToRestore = [],
                    p_orphanedTransactions =
                      [\<lparr>ynabId = ''A'', upId = ''tx-1'', o_payee = ''Shop'',
                        o_amount = Num (- 5944751508129055 / 562949953421312), o_date = ''2024-02-03''\<rparr>] \<rparr>) \<and>
   drop 7 ''UPBANK:tx-1''
     \<notin> sourceIds (exampleSetting [exampleTx ''tx-2'' ''HELD''] noFaults) [(''up1'', ''y1'')] ''2024-02-03'' \<and>
   DeleteTransaction ''A''
     \<in> set (calls (snd (performResyncAll (exampleSetting [exampleTx ''tx-2'' ''HELD''] noFaults)
                           [(''up1'', ''y1'')] False
                           (exampleWorld [exampleEntry ''A'' ''y1'' (Some ''UPBANK:tx-1'') Cleared False])))) \<and>
   gone ''A''
     (ynab (snd (performResyncAll (exampleSetting [exampleTx ''tx-2'' ''HELD''] noFaults)
                   [(''up1'', ''y1'')] False
                   (exampleWorld [exampleEntry ''A'' ''y1'' (Some ''UPBANK:tx-1'') Cleared False]))))"
proof -
  let ?sv = "exampleSetting [exampleTx ''tx-2'' ''HELD''] noFaults"
  let ?m = "[(''up1'', ''y1'')]"
  let ?A = "exampleEntry ''A'' ''y1'' (Some ''UPBANK:tx-1'') Cleared False"
  let ?w = "exampleWorld [?A]"
  let ?o = "\<lparr>ynabId = ''A'', upId = ''tx-1'', o_payee = ''Shop'',
             o_amount = Num (- 5944751508129055 / 562949953421312), o_date = ''2024-02-03''\<rparr>"
  note t = orphan_detection [OF ex_plan]
  have nf: "\<forall>h i. \<not> faults ?sv h (DeleteTransaction i)"
    by (simp add: example_defs)
  have A: "?A \<in> set (ynab ?w)" "t_account_id ?A \<in> snd ` set ?m" "\<not> t_deleted ?A"
    "startsWithUPBANK (t_import_id ?A)" "orphanOf (upBankTransaction ?A) = ?o"
    "orElse (t_import_id ?A) [] = ''UPBANK:tx-1''"
    by (simp_all add: example_defs startsWithUPBANK_def orphanOf_def upBankTransaction_def
          double_defs)
  from t A have 1: "drop 7 ''UPBANK:tx-1'' \<notin> sourceIds ?sv ?m ''2024-02-03''"
    by simp
  from t have 2: "DeleteTransaction ''A'' \<in> set (calls (snd (performResyncAll ?sv ?m False ?w)))"
    by simp
  from t nf have 3: "gone ''A'' (ynab (snd (performResyncAll ?sv ?m False ?w)))"
    by simp
  from 1 2 3 show ?thesis by (simp add: ex_plan)
qed
section \<open>Dry run\<close>

text \<open>
  Claim C3, as stated, fails on the count of the transactions that would be synced: the
  dry run skips the sync loop and reports \<^verbatim>\<open>total = 0\<close>, \<^verbatim>\<open>imported = 0\<close> and no
  account results, while the live run on the same data syncs one transaction.  Here the
  ledger holds one active transaction with key \<^verbatim>\<open>UPBANK:tx-1\<close> and the source serves one
  transaction \<^verbatim>\<open>tx-2\<close>: both runs report the same orphan, the live run reports
  \<^verbatim>\<open>total = 1\<close>, the dry run \<^verbatim>\<open>total = 0\<close>.
\<close>

theorem dry_run_sync_count_counterexample:
  "fst (performResyncAll (exampleSetting [exampleTx ''tx-2'' ''HELD''] noFaults)
          [(''up1'', ''y1'')] True
          (exampleWorld [exampleEntry ''A'' ''y1'' (Some ''UPBANK:tx-1'') Cleared False]))
     = Inr \<lparr> resultMessage = ''Dry run complete - no changes made'', dryRun = True,
             earliestDate = Some ''2024-02-03'',
             totalImported = 0, totalDuplicates = 0, totalTransactions = 0,
             orphanedDeleted = 0,
             orphanedTransactions =
               [\<lparr>ynabId = ''A'', upId = ''tx-1'', o_payee = ''Shop'',
                 o_amount = Num (- 5944751508129055 / 562949953421312), o_date = ''2024-02-03''\<rparr>],
             restoredCount = 0, restoredTransactions = [], accounts = [] \<rparr> \<and>
   fst (performResyncAll (exampleSetting [exampleTx ''tx-2'' ''HELD''] noFaults)
          [(''up1'', ''y1'')] False
          (exampleWorld [exampleEntry ''A'' ''y1'' (Some ''UPBANK:tx-1'') Cleared False]))
     = Inr \<lparr> resultMessage = ''Full resync complete'', dryRun = False,
             earliestDate = Some ''2024-02-03'',
             totalImported = 1, totalDuplicates = 0, totalTransactions = 1,
             orphanedDeleted = 1,
             orphanedTransactions =
               [\<lparr>ynabId = ''A'', upId = ''tx-1'', o_payee = ''Shop'',
                 o_amount = Num (- 5944751508129055 / 562949953421312), o_date = ''2024-02-03''\<rparr>],
             restoredCount = 0, restoredTransactions = [],
             accounts = [\<lparr>a_upAccountId = ''up1'', a_ynabAccountId = ''y1'',
                          a_imported = 1, a_duplicates = 0\<rparr>] \<rparr>"
  by (simp add: ex_dry ex_live)

text \<open>
  Claim C3, amended (dry run has zero side effects).  For every input, fault pattern
  included, a pass with \<^verbatim>\<open>dryRun = true\<close> leaves the target ledger as it was and sends no
  create, update or delete; its report has \<^verbatim>\<open>imported\<close>, \<^verbatim>\<open>duplicates\<close>, \<^verbatim>\<open>total\<close>,
  \<^verbatim>\<open>orphanedDeleted\<close> and \<^verbatim>\<open>restoredCount\<close> all 0 and no account results.  Whenever
  the live pass on the same data returns a report, the dry run returns one too, with the
  same earliest date and the same orphaned transactions; every transaction the live pass
  restored is among those the dry run lists as restorable, the live \<^verbatim>\<open>restoredCount\<close>
  is at most the number the dry run lists, and equal to it when no create fails.
\<close>

theorem dry_run_no_side_effects:
  "ynab (snd (performResyncAll sv m True w)) = ynab w \<and>
   filter mutating (calls (snd (performResyncAll sv m True w))) = filter mutating (calls w) \<and>
   (\<forall>rd. fst (performResyncAll sv m True w) = Inr rd \<longrightarrow>
      totalImported rd = 0 \<and> totalDuplicates rd = 0 \<and> totalTransactions rd = 0 \<and>
      accounts rd = [] \<and> orphanedDeleted rd = 0 \<and> restoredCount rd = 0) \<and>
   (\<forall>rl wl. performResyncAll sv m False w = (Inr rl, wl) \<longrightarrow>
      (\<exists>rd. fst (performResyncAll sv m True w) = Inr rd \<and>
         earliestDate rl = earliestDate rd \<and>
         orphanedTransactions rl = orphanedTransactions rd \<and>
         set (restoredTransactions rl) \<subseteq> set (restoredTransactions rd) \<and>
         restoredCount rl \<le> length (restoredTransactions rd) \<and>
         ((\<forall>h b. \<not> faults sv h (CreateTransactions b)) \<longrightarrow>
            restoredCount rl = length (restoredTransactions rd))))"
proof -
  obtain rp w1 where plan: "resyncPlan sv m w = (rp, w1)"
    by (cases "resyncPlan sv m w")
  from resyncPlan_reads [OF plan] have ro: "readsOnly w w1" by simp
  show ?thesis
  proof (cases rp)
    case (Inl e)
    with plan have "performResyncAll sv m True w = (Inl e, w1)"
      and "performResyncAll sv m False w = (Inl e, w1)"
      by (simp_all add: performResyncAll_failed)
    with ro show ?thesis by (simp add: readsOnly_def)
  next
    case (Inr po)
    show ?thesis
    proof (cases po)
      case None
      with plan Inr have "performResyncAll sv m True w = (Inr (nothingToResync True), w1)"
        and "performResyncAll sv m False w = (Inr (nothingToResync False), w1)"
        by (simp_all add: performResyncAll_nothing)
      with ro show ?thesis by (simp add: readsOnly_def nothingToResync_def)
    next
      case (Some p)
      with plan Inr have plan': "resyncPlan sv m w = (Inr (Some p), w1)" by simp
      note dry = performResyncAll_dry [OF plan']
      have d: "set (map (\<lambda>(upTx, a). restoredOf upTx) (p_transactionsToRestore p))
                 = restoredOf ` fst ` set (p_transactionsToRestore p)"
        by (auto simp add: image_iff) force
      have "earliestDate rl = Some (p_earliestDate p) \<and>
            orphanedTransactions rl = p_orphanedTransactions p \<and>
            set (restoredTransactions rl)
              \<subseteq> set (map (\<lambda>(upTx, a). restoredOf upTx) (p_transactionsToRestore p)) \<and>
            restoredCount rl \<le> length (p_transactionsToRestore p) \<and>
            ((\<forall>h b. \<not> faults sv h (CreateTransactions b)) \<longrightarrow>
               restoredCount rl = length (p_transactionsToRestore p))"
        if "performResyncAll sv m False w = (Inr rl, wl)" for rl wl
        using live_report [OF plan' that] unfolding d by blast
      with ro show ?thesis
        unfolding dry by (simp add: readsOnly_def)
    qed
  qed
qed

theorem dry_run_no_side_effects_witness:
  "ynab (snd (performResyncAll (exampleSetting [exampleTx ''tx-2'' ''HELD''] noFaults)
                [(''up1'', ''y1'')] True
                (exampleWorld [exampleEntry ''A'' ''y1'' (Some ''UPBANK:tx-1'') Cleared False])))
     = [exampleEntry ''A'' ''y1'' (Some ''UPBANK:tx-1'') Cleared False] \<and>
   filter mutating
     (calls (snd (performResyncAll (exampleSetting [exampleTx ''tx-2'' ''HELD''] noFaults)
                [(''up1'', ''y1'')] True
                (exampleWorld [exampleEntry ''A'' ''y1'' (Some ''UPBANK:tx-1'') Cleared False]))))
     = [] \<and>
   orphanedTransactions
     (projr (fst (performResyncAll (exampleSetting [exampleTx ''tx-2'' ''HELD''] noFaults)
                    [(''up1'', ''y1'')] False
                    (exampleWorld [exampleEntry ''A'' ''y1'' (Some ''UPBANK:tx-1'') Cleared False]))))
     = orphanedTransactions
         (projr (fst (performResyncAll (exampleSetting [exampleTx ''tx-2'' ''HELD''] noFaults)
                    [(''up1'', ''y1'')] True
                    (exampleWorld [exampleEntry ''A'' ''y1'' (Some ''UPBANK:tx-1'') Cleared False])))) \<and>
   length (orphanedTransactions
     (projr (fst (performResyncAll (exampleSetting [exampleTx ''tx-2'' ''HELD''] noFaults)
                    [(''up1'', ''y1'')] True
                    (exampleWorld [exampleEntry ''A'' ''y1'' (Some ''UPBANK:tx-1'') Cleared False])))))
     = 1"
proof -
  let ?sv = "exampleSetting [exampleTx ''tx-2'' ''HELD''] noFaults"
  let ?m = "[(''up1'', ''y1'')]"
  let ?w = "exampleWorld [exampleEntry ''A'' ''y1'' (Some ''UPBANK:tx-1'') Cleared False]"
  note t = dry_run_no_side_effects [of ?sv ?m ?w]
  from t have a: "ynab (snd (performResyncAll ?sv ?m True ?w)) = ynab ?w"
    and b: "filter mutating (calls (snd (performResyncAll ?sv ?m True ?w))) = filter mutating (calls ?w)"
    by blast+
  from t ex_live obtain rd where rd: "fst (performResyncAll ?sv ?m True ?w) = Inr rd"
    "orphanedTransactions (projr (fst (performResyncAll ?sv ?m False ?w))) = orphanedTransactions rd"
    by (metis fst_conv sum.sel(2))
  have c: "length (orphanedTransactions (projr (fst (performResyncAll ?sv ?m True ?w)))) = 1"
    by (simp add: ex_dry)
  from a b rd c show ?thesis
    by (simp add: exampleWorld_def)
qed
section \<open>Restoration\<close>

text \<open>
  Claim C4 (restoration creates omit the idempotency key).  Whenever the plan of a
  reconciliation pass is computed: the restoration candidates are exactly the fetched
  source transactions of a mapped account whose full key is held by a soft-deleted
  target transaction and by no active one, each paired with its mapped target account;
  for every candidate the live pass sends one batched create, made by the restoration
  mapper for the candidate's target account, that contains the candidate and only
  candidates of that account; every entry made by the restoration mapper has no
  \<^verbatim>\<open>import_id\<close> and the account of its batch; every create the live pass sends is either
  such a batch without any \<^verbatim>\<open>import_id\<close>, or a non-empty batch of the sync path in which
  every entry carries the key of a source transaction; and every create sent by
  \<^verbatim>\<open>syncToYNAB\<close> is of the latter kind.
\<close>

theorem restoration_omits_import_id:
  assumes plan: "resyncPlan sv m w = (Inr (Some p), w1)"
  shows "(\<forall>tx a. (tx, a) \<in> set (p_transactionsToRestore p) \<longleftrightarrow>
            (\<exists>u. (u, a) \<in> set m \<and> tx \<in> set (concat (up sv u (p_earliestDate p))) \<and>
                 restorableKey (ynab w) (importId (txid tx)))) \<and>
         (\<forall>ta\<in>set (p_transactionsToRestore p).
            \<exists>xs. CreateTransactions (map (restoredTx (snd ta) (clock sv)) xs)
                    \<in> set (calls (snd (performResyncAll sv m False w))) \<and>
                 fst ta \<in> set xs \<and>
                 (\<forall>x\<in>set xs. (x, snd ta) \<in> set (p_transactionsToRestore p))) \<and>
         (\<forall>a c xs. \<forall>x\<in>set (map (restoredTx a c) xs). s_import_id x = None \<and> s_account_id x = a) \<and>
         (\<forall>b. CreateTransactions b \<in> set (calls (snd (performResyncAll sv m False w))) \<longrightarrow>
            CreateTransactions b \<in> set (calls w) \<or>
            (\<forall>x\<in>set b. s_import_id x = None) \<or>
            b \<noteq> [] \<and> (\<forall>x\<in>set b. \<exists>tx::TransactionResource. s_import_id x = Some (importId (txid tx)))) \<and>
         (\<forall>a xs w0 b. CreateTransactions b \<in> set (calls (snd (syncToYNAB sv a xs w0))) \<longrightarrow>
            CreateTransactions b \<in> set (calls w0) \<or>
            b \<noteq> [] \<and> (\<forall>x\<in>set b. \<exists>tx::TransactionResource. s_import_id x = Some (importId (txid tx))))"
proof -
  obtain r w' where run: "performResyncAll sv m False w = (r, w')"
    by (cases "performResyncAll sv m False w")
  note lc = live_calls [OF plan run]
  let ?q = "p_transactionsToRestore p"
  let ?gs = "groupByAccount ?q []"
  note lc2 = lc [THEN conjunct2, THEN conjunct1]
  note lc3 = lc [THEN conjunct2, THEN conjunct2, THEN conjunct1]
  have flat: "(\<Union>g\<in>set ?gs. (\<lambda>tx. (tx, fst g)) ` set (snd g)) = set ?q"
    by (simp only: groupByAccount_flat) simp
  have 1: "\<forall>tx a. (tx, a) \<in> set ?q \<longleftrightarrow>
            (\<exists>u. (u, a) \<in> set m \<and> tx \<in> set (concat (up sv u (p_earliestDate p))) \<and>
                 restorableKey (ynab w) (importId (txid tx)))"
    using queue_mem [OF plan] by (intro allI)
  have 2: "\<forall>ta\<in>set ?q.
            \<exists>xs. CreateTransactions (map (restoredTx (snd ta) (clock sv)) xs) \<in> set (calls w') \<and>
                 fst ta \<in> set xs \<and> (\<forall>x\<in>set xs. (x, snd ta) \<in> set ?q)"
  proof
    fix ta assume ta: "ta \<in> set ?q"
    with flat have "ta \<in> (\<Union>g\<in>set ?gs. (\<lambda>tx. (tx, fst g)) ` set (snd g))" by simp
    then obtain g where g: "g \<in> set ?gs" "ta \<in> (\<lambda>tx. (tx, fst g)) ` set (snd g)"
      by (rule UN_E)
    from g(2) obtain tx where tx: "tx \<in> set (snd g)" "ta = (tx, fst g)" by (rule imageE)
    have members: "\<forall>x\<in>set (snd g). (x, snd ta) \<in> set ?q"
    proof
      fix x assume "x \<in> set (snd g)"
      then have "(x, fst g) \<in> (\<lambda>tx. (tx, fst g)) ` set (snd g)" by (rule imageI)
      with g(1) have "(x, fst g) \<in> (\<Union>g\<in>set ?gs. (\<lambda>tx. (tx, fst g)) ` set (snd g))"
        by (rule UN_I)
      then show "(x, snd ta) \<in> set ?q" by (simp only: flat tx(2) snd_conv)
    qed
    from lc2 g(1)
    have "CreateTransactions (map (restoredTx (fst g) (clock sv)) (snd g)) \<in> set (calls w')"
      by (rule bspec)
    then have "CreateTransactions (map (restoredTx (snd ta) (clock sv)) (snd g)) \<in> set (calls w')"
      by (simp only: tx(2) snd_conv)
    moreover have "fst ta \<in> set (snd g)" using tx by simp
    ultimately show "\<exists>xs. CreateTransactions (map (restoredTx (snd ta) (clock sv)) xs) \<in> set (calls w') \<and>
                 fst ta \<in> set xs \<and> (\<forall>x\<in>set xs. (x, snd ta) \<in> set ?q)"
      using members by (intro exI [of _ "snd g"] conjI)
  qed
  have 3: "\<forall>a c xs. \<forall>x\<in>set (map (restoredTx a c) xs). s_import_id x = None \<and> s_account_id x = a"
    by (auto simp add: restoredTx_def)
  have 4: "\<forall>b. CreateTransactions b \<in> set (calls w') \<longrightarrow>
            CreateTransactions b \<in> set (calls w) \<or>
            (\<forall>x\<in>set b. s_import_id x = None) \<or>
            b \<noteq> [] \<and> (\<forall>x\<in>set b. \<exists>tx::TransactionResource. s_import_id x = Some (importId (txid tx)))"
  proof (intro allI impI)
    fix b assume cb: "CreateTransactions b \<in> set (calls w')"
    from lc3 [rule_format, OF cb] consider
      (old) "CreateTransactions b \<in> set (calls w)"
      | (restore) "\<exists>g\<in>set ?gs. b = map (restoredTx (fst g) (clock sv)) (snd g)"
      | (sync) "b \<noteq> [] \<and> (\<forall>x\<in>set b. \<exists>tx::TransactionResource. s_import_id x = Some (importId (txid tx)))"
      by (elim disjE)
    then show "CreateTransactions b \<in> set (calls w) \<or>
            (\<forall>x\<in>set b. s_import_id x = None) \<or>
            b \<noteq> [] \<and> (\<forall>x\<in>set b. \<exists>tx::TransactionResource. s_import_id x = Some (importId (txid tx)))"
    proof cases
      case old
      then show ?thesis by (rule disjI1)
    next
      case restore
      then obtain g where "b = map (restoredTx (fst g) (clock sv)) (snd g)" by (rule bexE)
      then have "\<forall>x\<in>set b. s_import_id x = None" by (simp add: restoredTx_def)
      then show ?thesis by (intro disjI2 disjI1)
    next
      case sync
      then show ?thesis by (intro disjI2)
    qed
  qed
  have 5: "\<forall>a xs w0 b. CreateTransactions b \<in> set (calls (snd (syncToYNAB sv a xs w0))) \<longrightarrow>
            CreateTransactions b \<in> set (calls w0) \<or>
            b \<noteq> [] \<and> (\<forall>x\<in>set b. \<exists>tx::TransactionResource. s_import_id x = Some (importId (txid tx)))"
  proof (intro allI impI)
    fix a xs w0 b
    assume c: "CreateTransactions b \<in> set (calls (snd (syncToYNAB sv a xs w0)))"
    have sp: "syncToYNAB sv a xs w0 = (fst (syncToYNAB sv a xs w0), snd (syncToYNAB sv a xs w0))"
      by simp
    from syncToYNAB_calls [OF sp]
    have "\<forall>b. CreateTransactions b \<in> set (calls (snd (syncToYNAB sv a xs w0))) \<longrightarrow>
        CreateTransactions b \<in> set (calls w0) \<or>
        b \<noteq> [] \<and> (\<forall>x\<in>set b. \<exists>tx::TransactionResource. s_import_id x = Some (importId (txid tx)))"
      by (rule conjunct2)
    from this [rule_format, OF c]
    show "CreateTransactions b \<in> set (calls w0) \<or>
            b \<noteq> [] \<and> (\<forall>x\<in>set b. \<exists>tx::TransactionResource. s_import_id x = Some (importId (txid tx)))" .
  qed
  from 1 2 3 4 5 show ?thesis
    unfolding run snd_conv by (intro conjI)
qed

theorem restoration_omits_import_id_witness:
  "fst (resyncPlan (exampleSetting [exampleTx ''tx-1'' ''SETTLED''] noFaults) [(''up1'', ''y1'')]
          (exampleWorld [exampleEntry ''A'' ''y1'' (Some ''UPBANK:tx-1'') Cleared True,
                         exampleEntry ''B'' ''y1'' None Cleared False]))
     = Inr (Some \<lparr> p_earliestDate = ''2024-02-03'',
                    p_transactionsToRestore = [(exampleTx ''tx-1'' ''SETTLED'', ''y1'')],
                    p_orphanedTransactions = [] \<rparr>) \<and>
   restorableKey
     (ynab (exampleWorld [exampleEntry ''A'' ''y1'' (Some ''UPBANK:tx-1'') Cleared True,
                          exampleEntry ''B'' ''y1'' None Cleared False]))
     (importId (txid (exampleTx ''tx-1'' ''SETTLED''))) \<and>
   (\<exists>xs. CreateTransactions (map (restoredTx ''y1'' ''2024-05-05T00:00:00.000Z'') xs)
            \<in> set (calls (snd (performResyncAll
                                  (exampleSetting [exampleTx ''tx-1'' ''SETTLED''] noFaults)
                                  [(''up1'', ''y1'')] False
                                  (exampleWorld
                                     [exampleEntry ''A'' ''y1'' (Some ''UPBANK:tx-1'') Cleared True,
                                      exampleEntry ''B'' ''y1'' None Cleared False])))) \<and>
         exampleTx ''tx-1'' ''SETTLED'' \<in> set xs) \<and>
   s_import_id (restoredTx ''y1'' ''2024-05-05T00:00:00.000Z'' (exampleTx ''tx-1'' ''SETTLED'')) = None"
proof -
  let ?tx = "exampleTx ''tx-1'' ''SETTLED''"
  let ?sv = "exampleSetting [?tx] noFaults"
  let ?m = "[(''up1'', ''y1'')]"
  let ?w = "exampleWorld [exampleEntry ''A'' ''y1'' (Some ''UPBANK:tx-1'') Cleared True,
                         exampleEntry ''B'' ''y1'' None Cleared False]"
  note t = restoration_omits_import_id [OF ex_plan_restore]
  have c: "clock ?sv = ''2024-05-05T00:00:00.000Z''" by (simp add: exampleSetting_def)
  note t1 = t [THEN conjunct1, rule_format, where tx = ?tx and a = "''y1''"]
  note t2 = t [THEN conjunct2, THEN conjunct1, rule_format, where ta = "(?tx, ''y1'')"]
  note t3 = t [THEN conjunct2, THEN conjunct2, THEN conjunct1, rule_format,
               where a = "''y1''" and c = "''2024-05-05T00:00:00.000Z''" and xs = "[?tx]"
                 and x = "restoredTx ''y1'' ''2024-05-05T00:00:00.000Z'' ?tx"]
  from t1 have 1: "restorableKey (ynab ?w) (importId (txid ?tx))" by simp
  from t2 obtain xs where "CreateTransactions (map (restoredTx ''y1'' (clock ?sv)) xs)
                       \<in> set (calls (snd (performResyncAll ?sv ?m False ?w)))" "?tx \<in> set xs"
    by auto
  then have 2: "\<exists>xs. CreateTransactions (map (restoredTx ''y1'' ''2024-05-05T00:00:00.000Z'') xs)
                       \<in> set (calls (snd (performResyncAll ?sv ?m False ?w))) \<and> ?tx \<in> set xs"
    unfolding c by (intro exI [of _ xs] conjI)
  from t3 have 3: "s_import_id (restoredTx ''y1'' ''2024-05-05T00:00:00.000Z'' ?tx) = None"
    by simp
  from 1 2 3 show ?thesis by (simp add: ex_plan_restore)
qed
section \<open>Failures during reconciliation\<close>

text \<open>
  Claim C8 (reconciliation failure semantics).  If the listing of some mapped account's
  target transactions fails, the pass, dry or live, returns the error and no report.
  The loop over the orphans sends a delete for every orphan whatever fails, counts the
  deletes that succeeded and logs one error for each that failed.  Whenever the plan is
  computed, the live pass sends a delete for every orphan and a batched create for every
  account with restoration candidates; a report it returns has
  \<^verbatim>\<open>orphanedDeleted\<close> at most the number of orphans and \<^verbatim>\<open>restoredCount\<close> equal to the
  number of restored transactions listed, at most the number of candidates; an error it
  returns is an error of the final sync loop.  If the only requests that fail are deletes
  and creates without \<^verbatim>\<open>import_id\<close>, the live pass returns a report.
\<close>

theorem reconciliation_failure_semantics:
  "((\<exists>k<length m. faults sv (calls w @ map (\<lambda>ua. GetTransactionsByAccount (snd ua)) (take k m))
                     (GetTransactionsByAccount (snd (m ! k)))) \<longrightarrow>
      fst (performResyncAll sv m dry w) = Inl YnabApiError) \<and>
   (\<forall>os n w0.
      calls (snd (deleteOrphans sv os n w0))
        = calls w0 @ map (\<lambda>orphan. DeleteTransaction (ynabId orphan)) os \<and>
      fst (deleteOrphans sv os n w0) \<le> n + length os \<and>
      console (snd (deleteOrphans sv os n w0))
        = console w0 @ replicate (n + length os - fst (deleteOrphans sv os n w0))
                         (Err ''Failed to delete orphan'')) \<and>
   (\<forall>p w1. resyncPlan sv m w = (Inr (Some p), w1) \<longrightarrow>
      (\<forall>x\<in>set (p_orphanedTransactions p).
         DeleteTransaction (ynabId x) \<in> set (calls (snd (performResyncAll sv m False w)))) \<and>
      (\<forall>g\<in>set (groupByAccount (p_transactionsToRestore p) []).
         CreateTransactions (map (restoredTx (fst g) (clock sv)) (snd g))
           \<in> set (calls (snd (performResyncAll sv m False w)))) \<and>
      (\<forall>rl. fst (performResyncAll sv m False w) = Inr rl \<longrightarrow>
         orphanedDeleted rl \<le> length (orphanedTransactions rl) \<and>
         restoredCount rl = length (restoredTransactions rl) \<and>
         restoredCount rl \<le> length (p_transactionsToRestore p)) \<and>
      (\<forall>e. fst (performResyncAll sv m False w) = Inl e \<longrightarrow>
         (\<exists>w3. fst (syncAccounts sv (p_earliestDate p) m ([], 0, 0, 0) w3) = Inl e))) \<and>
   ((\<forall>h c. faults sv h c \<longrightarrow> bestEffort c) \<longrightarrow>
      (\<exists>rl. fst (performResyncAll sv m False w) = Inr rl))"
proof -
  have 1: "(\<exists>k<length m. faults sv (calls w @ map (\<lambda>ua. GetTransactionsByAccount (snd ua)) (take k m))
                     (GetTransactionsByAccount (snd (m ! k)))) \<longrightarrow>
      fst (performResyncAll sv m dry w) = Inl YnabApiError"
    using performResyncAll_listing_fault [of m sv w dry] by blast
  have 2: "calls (snd (deleteOrphans sv os n w0))
        = calls w0 @ map (\<lambda>orphan. DeleteTransaction (ynabId orphan)) os \<and>
      fst (deleteOrphans sv os n w0) \<le> n + length os \<and>
      console (snd (deleteOrphans sv os n w0))
        = console w0 @ replicate (n + length os - fst (deleteOrphans sv os n w0))
                         (Err ''Failed to delete orphan'')" for os n w0
    using deleteOrphans_effect [OF surjective_pairing, of sv os n w0] by blast
  have 3: "(\<forall>x\<in>set (p_orphanedTransactions p).
         DeleteTransaction (ynabId x) \<in> set (calls (snd (performResyncAll sv m False w)))) \<and>
      (\<forall>g\<in>set (groupByAccount (p_transactionsToRestore p) []).
         CreateTransactions (map (restoredTx (fst g) (clock sv)) (snd g))
           \<in> set (calls (snd (performResyncAll sv m False w)))) \<and>
      (\<forall>rl. fst (performResyncAll sv m False w) = Inr rl \<longrightarrow>
         orphanedDeleted rl \<le> length (orphanedTransactions rl) \<and>
         restoredCount rl = length (restoredTransactions rl) \<and>
         restoredCount rl \<le> length (p_transactionsToRestore p)) \<and>
      (\<forall>e. fst (performResyncAll sv m False w) = Inl e \<longrightarrow>
         (\<exists>w3. fst (syncAccounts sv (p_earliestDate p) m ([], 0, 0, 0) w3) = Inl e))"
    if plan: "resyncPlan sv m w = (Inr (Some p), w1)" for p w1
  proof -
    obtain r w' where run: "performResyncAll sv m False w = (r, w')"
      by (cases "performResyncAll sv m False w")
    note lc = live_calls [OF plan run]
    have "orphanedDeleted rl \<le> length (orphanedTransactions rl) \<and>
         restoredCount rl = length (restoredTransactions rl) \<and>
         restoredCount rl \<le> length (p_transactionsToRestore p)" if "r = Inr rl" for rl
      using live_report [OF plan, of rl w'] run that by simp
    with lc show ?thesis unfolding run fst_conv snd_conv by blast
  qed
  have 4: "\<exists>rl. fst (performResyncAll sv m False w) = Inr rl"
    if nf: "\<forall>h c. faults sv h c \<longrightarrow> bestEffort c"
  proof -
    from resyncPlan_ok [OF nf, of m w] obtain po w1 where plan: "resyncPlan sv m w = (Inr po, w1)"
      by (cases "resyncPlan sv m w") auto
    show ?thesis
    proof (cases po)
      case None
      with plan show ?thesis by (simp add: performResyncAll_nothing)
    next
      case (Some p)
      with plan have plan': "resyncPlan sv m w = (Inr (Some p), w1)" by simp
      obtain r w' where run: "performResyncAll sv m False w = (r, w')"
        by (cases "performResyncAll sv m False w")
      show ?thesis
      proof (cases r)
        case (Inl e)
        with live_calls [OF plan' run] obtain w3 where
          "fst (syncAccounts sv (p_earliestDate p) m ([], 0, 0, 0) w3) = Inl e" by blast
        with syncAccounts_ok [OF nf, of "p_earliestDate p" m "([], 0, 0, 0)" w3]
        show ?thesis by simp
      next
        case (Inr rl)
        with run show ?thesis by simp
      qed
    qed
  qed
  from 1 2 3 4 show ?thesis by blast
qed

theorem reconciliation_failure_semantics_witness:
  "faults (exampleSetting [exampleTx ''tx-2'' ''HELD''] (\<lambda>h c. c = GetTransactionsByAccount ''y1''))
     [] (GetTransactionsByAccount ''y1'') \<and>
   fst (performResyncAll
          (exampleSetting [exampleTx ''tx-2'' ''HELD''] (\<lambda>h c. c = GetTransactionsByAccount ''y1''))
          [(''up1'', ''y1'')] False
          (exampleWorld [exampleEntry ''A'' ''y1'' (Some ''UPBANK:tx-1'') Cleared False]))
     = Inl YnabApiError \<and>
   faults (exampleSetting [exampleTx ''tx-2'' ''HELD''] (\<lambda>h c. c = DeleteTransaction ''A''))
     [GetTransactionsByAccount ''y1'', GetTransactions, FetchUp ''up1'' ''2024-02-03'' 0]
     (DeleteTransaction ''A'') \<and>
   (\<exists>rl. fst (performResyncAll
                (exampleSetting [exampleTx ''tx-2'' ''HELD''] (\<lambda>h c. c = DeleteTransaction ''A''))
                [(''up1'', ''y1'')] False
                (exampleWorld [exampleEntry ''A'' ''y1'' (Some ''UPBANK:tx-1'') Cleared False]))
           = Inr rl \<and>
         orphanedDeleted rl = 0 \<and> length (orphanedTransactions rl) = 1 \<and> totalTransactions rl = 1) \<and>
   console (snd (performResyncAll
                   (exampleSetting [exampleTx ''tx-2'' ''HELD''] (\<lambda>h c. c = DeleteTransaction ''A''))
                   [(''up1'', ''y1'')] False
                   (exampleWorld [exampleEntry ''A'' ''y1'' (Some ''UPBANK:tx-1'') Cleared False])))
     = [Err ''Failed to delete orphan'']"
proof -
  let ?svL = "exampleSetting [exampleTx ''tx-2'' ''HELD''] (\<lambda>h c. c = GetTransactionsByAccount ''y1'')"
  let ?svD = "exampleSetting [exampleTx ''tx-2'' ''HELD''] (\<lambda>h c. c = DeleteTransaction ''A'')"
  let ?m = "[(''up1'', ''y1'')]"
  let ?w = "exampleWorld [exampleEntry ''A'' ''y1'' (Some ''UPBANK:tx-1'') Cleared False]"
  have f: "faults ?svL [] (GetTransactionsByAccount ''y1'')"
    by (simp add: exampleSetting_def)
  then have "\<exists>k<length ?m. faults ?svL (calls ?w @ map (\<lambda>ua. GetTransactionsByAccount (snd ua)) (take k ?m))
                     (GetTransactionsByAccount (snd (?m ! k)))"
    by (intro exI [of _ 0]) (simp add: exampleWorld_def)
  with reconciliation_failure_semantics [of ?m ?svL ?w False]
  have 1: "fst (performResyncAll ?svL ?m False ?w) = Inl YnabApiError"
    by blast
  have b: "\<forall>h c. faults ?svD h c \<longrightarrow> bestEffort c"
    by (simp add: exampleSetting_def)
  with reconciliation_failure_semantics [of ?m ?svD ?w False]
  have "\<exists>rl. fst (performResyncAll ?svD ?m False ?w) = Inr rl"
    by blast
  then have 2: "\<exists>rl. fst (performResyncAll ?svD ?m False ?w) = Inr rl \<and>
         orphanedDeleted rl = 0 \<and> length (orphanedTransactions rl) = 1 \<and> totalTransactions rl = 1"
    by (simp add: ex_delete_fails)
  have 3: "faults ?svD [GetTransactionsByAccount ''y1'', GetTransactions, FetchUp ''up1'' ''2024-02-03'' 0]
     (DeleteTransaction ''A'')"
    by (simp add: exampleSetting_def)
  from f 1 2 3 show ?thesis
    by (simp add: ex_delete_fails)
qed
end
